theory Spec2Isabelle
  imports Main "HOL-Library.Word"
begin

section \<open>Data model\<close>

text \<open>
  Bytes are 8-bit words, so that \<open>+\<close> on them wraps modulo 256. Block numbers, offsets
  and lengths of the manifest are unsigned and Python integers do not overflow: they are
  natural numbers. The signed integers of the patch container are \<open>int\<close>.
\<close>

type_synonym byte = "8 word"
type_synonym bytes = "byte list"

record extent =
  start_block :: nat
  num_blocks :: nat

text \<open>
  Modelled from the spec: the enumeration of operation types is declared in
  \<open>update_metadata_pb2\<close>, which is not among the sources. The constructors are the eight
  kinds that \<open>data_for_op\<close> compares \<open>op.type\<close> with; \<open>OTHER n\<close> is any other value
  \<open>n\<close> of the field.
\<close>

datatype op_type =
    REPLACE | REPLACE_BZ | REPLACE_XZ | ZSTD | ZERO
  | SOURCE_COPY | SOURCE_BSDIFF | BROTLI_BSDIFF | OTHER nat

text \<open>
  \<open>data_sha256_hash\<close> is a bytes field: Python reads an absent field as \<open>b''\<close>, and
  \<open>data_for_op\<close> tests it for truth, that is, for being non-empty.
\<close>

record install_operation =
  op_type :: op_type
  data_offset :: nat
  data_length :: nat
  data_sha256_hash :: bytes
  src_extents :: "extent list"
  dst_extents :: "extent list"

record partition_update =
  partition_name :: string
  operations :: "install_operation list"

text \<open>The exceptions that the modelled code can raise; \<open>sys.exit(n)\<close> is \<open>SystemExit n\<close>.\<close>

datatype error =
    AssertionError string
  | ValueError string
  | IndexError
  | TypeError
  | AttributeError
  | FileNotFoundError
  | OSError
  | PatchApplyError string
  | SystemExit int

section \<open>Extents\<close>

text \<open>\<open>verify_contiguous\<close>: the loop, with the running block count as an argument.\<close>

fun verify_contiguous_from :: "nat \<Rightarrow> extent list \<Rightarrow> bool" where
  "verify_contiguous_from blocks [] = True"
| "verify_contiguous_from blocks (ext # exts) =
     (if start_block ext \<noteq> blocks then False
      else verify_contiguous_from (blocks + num_blocks ext) exts)"

definition verify_contiguous :: "extent list \<Rightarrow> bool" where
  "verify_contiguous exts = verify_contiguous_from 0 exts"

text \<open>
  The specification's wording of contiguity, independent of the loop: the blocks of the
  extents, listed in appearance order, are exactly the blocks \<open>0, 1, ..., total_blocks - 1\<close>.
  A gap, an overlap or a wrong order makes the two lists differ.
\<close>

definition extent_blocks :: "extent \<Rightarrow> nat list" where
  "extent_blocks e = [start_block e ..< start_block e + num_blocks e]"

definition total_blocks :: "extent list \<Rightarrow> nat" where
  "total_blocks exts = sum_list (map num_blocks exts)"

definition covers_from_zero :: "extent list \<Rightarrow> bool" where
  "covers_from_zero exts \<longleftrightarrow> concat (map extent_blocks exts) = [0 ..< total_blocks exts]"

section \<open>Files\<close>

text \<open>
  The file system is a store from files to contents. A file is not its path: the
  operating system resolves a path to a file, and several paths (\<open>old/x.img\<close>,
  \<open>./old/x.img\<close>, a link) can name one file. Files are therefore named by identifiers,
  paths are resolved to them when a file is opened (\<open>resolve_path\<close> below), and a file
  object is the file it was opened on with a position, so that two file objects opened
  on one file share the contents. Writes reach the store at once. \<open>write_at c p d\<close> is
  the contents after writing \<open>d\<close> at position \<open>p\<close>: a position beyond the end leaves a hole
  of zero bytes, and writing nothing changes nothing.
\<close>

type_synonym file_id = string

type_synonym file_system = "file_id \<rightharpoonup> bytes"

record file_obj =
  f_file :: file_id
  f_pos :: nat

definition contents_of :: "file_system \<Rightarrow> file_id \<Rightarrow> bytes" where
  "contents_of fs p = (case fs p of None \<Rightarrow> [] | Some c \<Rightarrow> c)"

definition write_at :: "bytes \<Rightarrow> nat \<Rightarrow> bytes \<Rightarrow> bytes" where
  "write_at c p d =
     (if d = [] then c
      else take p (c @ replicate (p - length c) 0) @ d @ drop (p + length d) c)"

text \<open>
  The state that \<open>data_for_op\<close> works on: the file system and its two arguments
  \<open>out_file\<close> and \<open>old_file\<close> (\<open>None\<close> outside differential mode). A function that can
  raise returns the error or its value together with the state reached, since what was
  written before an exception stays written.
\<close>

record io_state =
  files :: file_system
  out_file :: file_obj
  old_file :: "file_obj option"

definition out_seek :: "nat \<Rightarrow> io_state \<Rightarrow> io_state" where
  "out_seek n s = s\<lparr>out_file := (out_file s)\<lparr>f_pos := n\<rparr>\<rparr>"

definition out_write :: "bytes \<Rightarrow> io_state \<Rightarrow> io_state" where
  "out_write d s =
     (let f = out_file s in
      s\<lparr>files := (files s)(f_file f \<mapsto> write_at (contents_of (files s) (f_file f)) (f_pos f) d),
        out_file := f\<lparr>f_pos := f_pos f + length d\<rparr>\<rparr>)"

text \<open>\<open>old_file.seek(p)\<close> followed by \<open>old_file.read(n)\<close>; a read stops at the end of the file.\<close>

definition old_seek_read :: "nat \<Rightarrow> nat \<Rightarrow> io_state \<Rightarrow> (error + bytes) \<times> io_state" where
  "old_seek_read p n s =
     (case old_file s of
        None \<Rightarrow> (Inl AttributeError, s)
      | Some f \<Rightarrow>
          (let d = take n (drop p (contents_of (files s) (f_file f)))
           in (Inr d, s\<lparr>old_file := Some (f\<lparr>f_pos := p + length d\<rparr>)\<rparr>)))"

text \<open>
  \<open>io.BytesIO\<close>: \<open>bio_read buf pos n\<close> reads at most \<open>n\<close> bytes from position \<open>pos\<close> and
  returns them with the new position; a negative \<open>n\<close> reads to the end, as \<open>read()\<close> does.
\<close>

definition bio_read :: "bytes \<Rightarrow> nat \<Rightarrow> int \<Rightarrow> bytes \<times> nat" where
  "bio_read buf pos n =
     (let d = (if n < 0 then drop pos buf else take (nat n) (drop pos buf))
      in (d, pos + length d))"

text \<open>The Python slice \<open>b[i:j]\<close> for \<open>0 \<le> i \<le> j\<close>.\<close>

definition pyslice :: "'a list \<Rightarrow> nat \<Rightarrow> nat \<Rightarrow> 'a list" where
  "pyslice b i j = take (j - i) (drop i b)"

section \<open>Libraries and globals\<close>

text \<open>
  The functions and the constant that the script takes from libraries (\<open>hashlib\<close>, \<open>lzma\<close>,
  \<open>zstandard\<close>, \<open>bz2\<close>, \<open>brotli\<close>, \<open>bsdiff4\<close>) are parameters of the model:
  \<open>bz2_decompressor\<close> is \<open>bz2.BZ2Decompressor().decompress\<close>, \<open>bz2_decompress\<close> is
  \<open>bz2.decompress\<close>, \<open>bsdiff4_MAGIC\<close> is \<open>bsdiff4.format.MAGIC\<close> and \<open>patch\<close> is
  \<open>bsdiff4.core.patch\<close>, whose last two arguments may be \<open>None\<close>. So is the operating
  system's resolution of a path to the file that \<open>open\<close> finds or creates for it,
  \<open>resolve_path\<close>.
\<close>

record libs =
  sha256 :: "bytes \<Rightarrow> bytes"
  lzma_decompress :: "bytes \<Rightarrow> error + bytes"
  zstd_decompress :: "bytes \<Rightarrow> error + bytes"
  bz2_decompressor :: "bytes \<Rightarrow> error + bytes"
  bz2_decompress :: "bytes \<Rightarrow> error + bytes"
  brotli_decompress :: "bytes \<Rightarrow> error + bytes"
  bsdiff4_MAGIC :: bytes
  decode_int64 :: "bytes \<Rightarrow> error + int"
  patch :: "bytes \<Rightarrow> int \<Rightarrow> (int \<times> int \<times> int) list \<Rightarrow> bytes option \<Rightarrow> bytes option
              \<Rightarrow> error + bytes"
  resolve_path :: "string \<Rightarrow> file_id"

text \<open>
  The module-level variables that the functions read: the payload file, \<open>data_offset\<close>,
  \<open>block_size\<close> and the command-line arguments.
\<close>

record globals =
  args_payloadfile :: bytes
  global_data_offset :: nat
  block_size :: nat
  args_diff :: bool
  args_out :: string
  args_old :: string
  args_images :: string

section \<open>Patch format decoder\<close>

definition BSDF2_MAGIC :: bytes where
  "BSDF2_MAGIC = [0x42, 0x53, 0x44, 0x46, 0x32]"

text \<open>\<open>bsdf2_decompress\<close> has no \<open>else\<close> branch: for any other \<open>alg\<close> it returns \<open>None\<close>.\<close>

definition bsdf2_decompress :: "libs \<Rightarrow> nat \<Rightarrow> bytes \<Rightarrow> error + bytes option" where
  "bsdf2_decompress L alg data =
     (if alg = 0 then Inr (Some data)
      else if alg = 1 then map_sum id Some (bz2_decompress L data)
      else if alg = 2 then map_sum id Some (brotli_decompress L data)
      else Inr None)"

text \<open>
  The magic of \<open>bsdf2_read_patch\<close>: the three codecs chosen from the
  bytes read as magic. \<open>magic[5]\<close> raises IndexError on a magic cut short.
\<close>

definition read_magic :: "libs \<Rightarrow> bytes \<Rightarrow> error + nat \<times> nat \<times> nat" where
  "read_magic L magic =
     (if magic = bsdiff4_MAGIC L then Inr (1, 1, 1)
      else if take 5 magic = BSDF2_MAGIC then
        (if length magic < 8 then Inl IndexError
         else Inr (unat (magic ! 5), unat (magic ! 6), unat (magic ! 7)))
      else Inl (ValueError ''Invalid bsdiff/BSDF2 magic signature''))"

record patch_header =
  alg_control :: nat
  alg_diff :: nat
  alg_extra :: nat
  len_control :: int
  len_diff :: int
  len_dst :: int
  fi_pos :: nat

text \<open>The magic and the three lengths, with the position of the stream after them.\<close>

definition read_patch_header :: "libs \<Rightarrow> bytes \<Rightarrow> error + patch_header" where
  "read_patch_header L fi =
     (let (magic, p1) = bio_read fi 0 8 in
      case read_magic L magic of Inl e \<Rightarrow> Inl e
      | Inr (ac, ad, ae) \<Rightarrow>
     (let (b1, p2) = bio_read fi p1 8 in
      case decode_int64 L b1 of Inl e \<Rightarrow> Inl e
      | Inr lc \<Rightarrow>
     (let (b2, p3) = bio_read fi p2 8 in
      case decode_int64 L b2 of Inl e \<Rightarrow> Inl e
      | Inr ld \<Rightarrow>
     (let (b3, p4) = bio_read fi p3 8 in
      case decode_int64 L b3 of Inl e \<Rightarrow> Inl e
      | Inr ln \<Rightarrow>
          Inr \<lparr>alg_control = ac, alg_diff = ad, alg_extra = ae,
               len_control = lc, len_diff = ld, len_dst = ln, fi_pos = p4\<rparr>))))"

text \<open>\<open>bcontrol\<close>: the control stream read and decompressed.\<close>

definition read_bcontrol :: "libs \<Rightarrow> bytes \<Rightarrow> error + patch_header \<times> bytes option \<times> nat" where
  "read_bcontrol L fi =
     (case read_patch_header L fi of Inl e \<Rightarrow> Inl e
      | Inr h \<Rightarrow>
     (let (c, p5) = bio_read fi (fi_pos h) (len_control h) in
      case bsdf2_decompress L (alg_control h) c of Inl e \<Rightarrow> Inl e
      | Inr bcontrol \<Rightarrow> Inr (h, bcontrol, p5)))"

text \<open>
  \<open>tcontrol\<close>: one triple for every \<open>i\<close> in \<open>range(0, len(bcontrol), 24)\<close>, its three
  components decoded in order; the first exception ends the comprehension.
  \<open>len(None)\<close> raises TypeError.
\<close>

definition control_record :: "libs \<Rightarrow> bytes \<Rightarrow> nat \<Rightarrow> error + int \<times> int \<times> int" where
  "control_record L bcontrol i =
     (case decode_int64 L (pyslice bcontrol i (i + 8)) of Inl e \<Rightarrow> Inl e
      | Inr x \<Rightarrow>
     (case decode_int64 L (pyslice bcontrol (i + 8) (i + 16)) of Inl e \<Rightarrow> Inl e
      | Inr y \<Rightarrow>
     (case decode_int64 L (pyslice bcontrol (i + 16) (i + 24)) of Inl e \<Rightarrow> Inl e
      | Inr z \<Rightarrow> Inr (x, y, z))))"

fun control_records :: "libs \<Rightarrow> bytes \<Rightarrow> nat list \<Rightarrow> error + (int \<times> int \<times> int) list" where
  "control_records L bcontrol [] = Inr []"
| "control_records L bcontrol (i # is) =
     (case control_record L bcontrol i of Inl e \<Rightarrow> Inl e
      | Inr t \<Rightarrow>
     (case control_records L bcontrol is of Inl e \<Rightarrow> Inl e
      | Inr ts \<Rightarrow> Inr (t # ts)))"

definition range24 :: "nat \<Rightarrow> nat list" where
  "range24 n = map (\<lambda>k. 24 * k) [0 ..< (n + 23) div 24]"

definition decode_control :: "libs \<Rightarrow> bytes option \<Rightarrow> error + (int \<times> int \<times> int) list" where
  "decode_control L bcontrol =
     (case bcontrol of None \<Rightarrow> Inl TypeError
      | Some bc \<Rightarrow> control_records L bc (range24 (length bc)))"

definition bsdf2_read_patch ::
  "libs \<Rightarrow> bytes \<Rightarrow> error + int \<times> (int \<times> int \<times> int) list \<times> bytes option \<times> bytes option" where
  "bsdf2_read_patch L fi =
     (case read_bcontrol L fi of Inl e \<Rightarrow> Inl e
      | Inr (h, bcontrol, p5) \<Rightarrow>
     (case decode_control L bcontrol of Inl e \<Rightarrow> Inl e
      | Inr tcontrol \<Rightarrow>
     (let (d, p6) = bio_read fi p5 (len_diff h) in
      case bsdf2_decompress L (alg_diff h) d of Inl e \<Rightarrow> Inl e
      | Inr bdiff \<Rightarrow>
     (let (x, p7) = bio_read fi p6 (- 1) in
      case bsdf2_decompress L (alg_extra h) x of Inl e \<Rightarrow> Inl e
      | Inr bextra \<Rightarrow> Inr (len_dst h, tcontrol, bdiff, bextra)))))"

text \<open>
  The specification's wording of the control stream, independent of the comprehension:
  the stream cut into its 24-byte records, in stream order, and each record read as
  three integers by \<open>v\<close>, the value that decoding gives to 8 bytes.
\<close>

definition records_of :: "(bytes \<Rightarrow> int) \<Rightarrow> bytes \<Rightarrow> (int \<times> int \<times> int) list" where
  "records_of v bc =
     map (\<lambda>k. (v (pyslice bc (24 * k) (24 * k + 8)),
               v (pyslice bc (24 * k + 8) (24 * k + 16)),
               v (pyslice bc (24 * k + 16) (24 * k + 24))))
       [0 ..< length bc div 24]"

section \<open>Operation interpreter\<close>

text \<open>The payload bytes of an operation: a seek to its offset in the data region and a read.\<close>

definition payload_read :: "globals \<Rightarrow> install_operation \<Rightarrow> bytes" where
  "payload_read G op =
     take (data_length op) (drop (global_data_offset G + data_offset op) (args_payloadfile G))"

text \<open>
  The four replace kinds end alike: seek to \<open>dst_extents[0]\<close>, which raises IndexError
  when the operation has no destination extent, and write the data.
\<close>

definition write_first :: "globals \<Rightarrow> install_operation \<Rightarrow> bytes \<Rightarrow> io_state
    \<Rightarrow> (error + bytes) \<times> io_state" where
  "write_first G op d s =
     (case dst_extents op of
        [] \<Rightarrow> (Inl IndexError, s)
      | e # _ \<Rightarrow> (Inr d, out_write d (out_seek (start_block e * block_size G) s)))"

text \<open>The loop of SOURCE_COPY over \<open>src_extents\<close>; \<open>data\<close> is the last value assigned.\<close>

fun source_copy_loop :: "nat \<Rightarrow> extent list \<Rightarrow> bytes \<Rightarrow> io_state
    \<Rightarrow> (error + bytes) \<times> io_state" where
  "source_copy_loop bs [] data s = (Inr data, s)"
| "source_copy_loop bs (ext # exts) data s =
     (case old_seek_read (start_block ext * bs) (num_blocks ext * bs) s of
        (Inl e, s') \<Rightarrow> (Inl e, s')
      | (Inr d, s') \<Rightarrow> source_copy_loop bs exts d (out_write d s'))"

text \<open>The first loop of the BSDIFF kinds: the source extents appended to \<open>tmp_buff\<close>.\<close>

fun read_src_extents :: "nat \<Rightarrow> extent list \<Rightarrow> bytes \<Rightarrow> io_state
    \<Rightarrow> (error + bytes) \<times> io_state" where
  "read_src_extents bs [] tmp_buff s = (Inr tmp_buff, s)"
| "read_src_extents bs (ext # exts) tmp_buff s =
     (case old_seek_read (start_block ext * bs) (num_blocks ext * bs) s of
        (Inl e, s') \<Rightarrow> (Inl e, s')
      | (Inr old_data, s') \<Rightarrow> read_src_extents bs exts (tmp_buff @ old_data) s')"

text \<open>
  The second loop of the BSDIFF kinds: for each destination extent, the next
  \<open>num_blocks * block_size\<close> bytes of \<open>tmp_buff\<close>, from block \<open>n\<close> of it, written at the
  extent's own offset.
\<close>

fun write_dst_extents :: "nat \<Rightarrow> extent list \<Rightarrow> bytes \<Rightarrow> nat \<Rightarrow> bytes \<Rightarrow> io_state
    \<Rightarrow> bytes \<times> io_state" where
  "write_dst_extents bs [] tmp_buff n data s = (data, s)"
| "write_dst_extents bs (ext # exts) tmp_buff n data s =
     (let d = take (num_blocks ext * bs) (drop (n * bs) tmp_buff)
      in write_dst_extents bs exts tmp_buff (n + num_blocks ext) d
           (out_write d (out_seek (start_block ext * bs) s)))"

text \<open>
  The BSDIFF kinds. The patched data is written over \<open>tmp_buff\<close> from its start, so
  that \<open>tmp_buff\<close> keeps the old data beyond the length of the new.
\<close>

definition bsdiff_op :: "libs \<Rightarrow> globals \<Rightarrow> install_operation \<Rightarrow> bytes \<Rightarrow> io_state
    \<Rightarrow> (error + bytes) \<times> io_state" where
  "bsdiff_op L G op data s =
     (if \<not> args_diff G then (Inl (SystemExit (- 3)), s)
      else case dst_extents op of
        [] \<Rightarrow> (Inl IndexError, s)
      | e # _ \<Rightarrow>
     (case read_src_extents (block_size G) (src_extents op) []
             (out_seek (start_block e * block_size G) s) of
        (Inl err, s1) \<Rightarrow> (Inl err, s1)
      | (Inr old_data, s1) \<Rightarrow>
     (case bsdf2_read_patch L data of
        Inl err \<Rightarrow> (Inl err, s1)
      | Inr (ln, tcontrol, bdiff, bextra) \<Rightarrow>
     (case patch L old_data ln tcontrol bdiff bextra of
        Inl err \<Rightarrow> (Inl err, s1)
      | Inr new_data \<Rightarrow>
          (let tmp_buff = new_data @ drop (length new_data) old_data;
               (d, s2) = write_dst_extents (block_size G) (dst_extents op) tmp_buff 0 data s1
           in (Inr d, s2))))))"

text \<open>The loop of ZERO over \<open>dst_extents\<close>.\<close>

fun zero_loop :: "nat \<Rightarrow> extent list \<Rightarrow> io_state \<Rightarrow> io_state" where
  "zero_loop bs [] s = s"
| "zero_loop bs (ext # exts) s =
     zero_loop bs exts
       (out_write (replicate (num_blocks ext * bs) 0) (out_seek (start_block ext * bs) s))"

definition data_for_op :: "libs \<Rightarrow> globals \<Rightarrow> install_operation \<Rightarrow> io_state
    \<Rightarrow> (error + bytes) \<times> io_state" where
  "data_for_op L G op s =
     (let data = payload_read G op in
      if data_sha256_hash op \<noteq> [] \<and> sha256 L data \<noteq> data_sha256_hash op
      then (Inl (AssertionError ''Data hash mismatch''), s)
      else case op_type op of
        REPLACE_XZ \<Rightarrow>
          (case lzma_decompress L data of
             Inl e \<Rightarrow> (Inl e, s) | Inr d \<Rightarrow> write_first G op d s)
      | ZSTD \<Rightarrow>
          (case zstd_decompress L data of
             Inl e \<Rightarrow> (Inl e, s) | Inr d \<Rightarrow> write_first G op d s)
      | REPLACE_BZ \<Rightarrow>
          (case bz2_decompressor L data of
             Inl e \<Rightarrow> (Inl e, s) | Inr d \<Rightarrow> write_first G op d s)
      | REPLACE \<Rightarrow> write_first G op data s
      | SOURCE_COPY \<Rightarrow>
          (if \<not> args_diff G then (Inl (SystemExit (- 2)), s)
           else case dst_extents op of
             [] \<Rightarrow> (Inl IndexError, s)
           | e # _ \<Rightarrow>
               source_copy_loop (block_size G) (src_extents op) data
                 (out_seek (start_block e * block_size G) s))
      | SOURCE_BSDIFF \<Rightarrow> bsdiff_op L G op data s
      | BROTLI_BSDIFF \<Rightarrow> bsdiff_op L G op data s
      | ZERO \<Rightarrow> (Inr data, zero_loop (block_size G) (dst_extents op) s)
      | OTHER n \<Rightarrow> (Inl (SystemExit (- 1)), s))"

section \<open>Partition driver\<close>

definition img_path :: "string \<Rightarrow> string \<Rightarrow> string" where
  "img_path dir name = dir @ ''/'' @ name @ ''.img''"

text \<open>The loop of \<open>dump_part\<close> over the operations: an exception ends it.\<close>

fun run_operations :: "libs \<Rightarrow> globals \<Rightarrow> install_operation list \<Rightarrow> io_state
    \<Rightarrow> (error + unit) \<times> io_state" where
  "run_operations L G [] s = (Inr (), s)"
| "run_operations L G (op # ops) s =
     (case data_for_op L G op s of
        (Inl e, s') \<Rightarrow> (Inl e, s')
      | (Inr data, s') \<Rightarrow> run_operations L G ops s')"

text \<open>
  \<open>dump_part\<close> first opens its files: the output image with mode \<open>wb\<close>, which creates it
  or cuts it to length 0, and in differential mode the old image for reading, which raises
  when there is no such file. Each path is resolved to its file, so that the two paths
  may name one file. Then it runs the operations.
\<close>

definition open_files :: "libs \<Rightarrow> globals \<Rightarrow> partition_update \<Rightarrow> file_system
    \<Rightarrow> (error + unit) \<times> io_state" where
  "open_files L G part fs =
     (let out_id = resolve_path L (img_path (args_out G) (partition_name part));
          old_id = resolve_path L (img_path (args_old G) (partition_name part));
          fs1 = fs(out_id \<mapsto> []);
          out_f = \<lparr>f_file = out_id, f_pos = 0\<rparr>
      in if args_diff G then
           (case fs1 old_id of
              None \<Rightarrow> (Inl FileNotFoundError, \<lparr>files = fs1, out_file = out_f, old_file = None\<rparr>)
            | Some c \<Rightarrow>
                (Inr (), \<lparr>files = fs1, out_file = out_f,
                          old_file = Some \<lparr>f_file = old_id, f_pos = 0\<rparr>\<rparr>))
         else (Inr (), \<lparr>files = fs1, out_file = out_f, old_file = None\<rparr>))"

definition dump_part :: "libs \<Rightarrow> globals \<Rightarrow> partition_update \<Rightarrow> file_system
    \<Rightarrow> (error + unit) \<times> file_system" where
  "dump_part L G part fs =
     (case open_files L G part fs of
        (Inl e, s0) \<Rightarrow> (Inl e, files s0)
      | (Inr u, s0) \<Rightarrow>
          (case run_operations L G (operations part) s0 of (r, s) \<Rightarrow> (r, files s)))"

text \<open>The loops at the end of the script: every partition, or the images named.\<close>

fun dump_parts :: "libs \<Rightarrow> globals \<Rightarrow> partition_update list \<Rightarrow> file_system
    \<Rightarrow> (error + unit) \<times> file_system" where
  "dump_parts L G [] fs = (Inr (), fs)"
| "dump_parts L G (part # parts) fs =
     (case dump_part L G part fs of
        (Inl e, fs') \<Rightarrow> (Inl e, fs')
      | (Inr u, fs') \<Rightarrow> dump_parts L G parts fs')"

fun split_on :: "char \<Rightarrow> string \<Rightarrow> string list" where
  "split_on c [] = [[]]"
| "split_on c (x # xs) =
     (if x = c then [] # split_on c xs
      else (case split_on c xs of [] \<Rightarrow> [[x]] | w # ws \<Rightarrow> (x # w) # ws))"

fun dump_images :: "libs \<Rightarrow> globals \<Rightarrow> string list \<Rightarrow> partition_update list \<Rightarrow> file_system
    \<Rightarrow> (error + unit) \<times> file_system" where
  "dump_images L G [] partitions fs = (Inr (), fs)"
| "dump_images L G (img # imgs) partitions fs =
     (case filter (\<lambda>part. partition_name part = img) partitions of
        [] \<Rightarrow> dump_images L G imgs partitions fs
      | part # _ \<Rightarrow>
          (case dump_part L G part fs of
             (Inl e, fs') \<Rightarrow> (Inl e, fs')
           | (Inr u, fs') \<Rightarrow> dump_images L G imgs partitions fs'))"

definition dump_all :: "libs \<Rightarrow> globals \<Rightarrow> partition_update list \<Rightarrow> file_system
    \<Rightarrow> (error + unit) \<times> file_system" where
  "dump_all L G partitions fs =
     (if args_images G = [] then dump_parts L G partitions fs
      else dump_images L G (split_on CHR '','' (args_images G)) partitions fs)"

section \<open>Patch applier\<close>

text \<open>
  Modelled from the spec: \<open>bsdiff4.core.patch\<close>, the function that applies a decoded
  patch, is not among the sources; \<open>apply_patch\<close> follows section 4.3 of the
  specification. Two cursors \<open>diff_pos\<close> and \<open>extra_pos\<close> read the diff and extra streams,
  \<open>old_pos\<close> is the signed cursor into the old data, and the output built so far is the
  new position. For each control tuple \<open>(copy_len, extra_len, seek_len)\<close>: the next
  \<open>copy_len\<close> diff bytes are added bytewise to the old data at \<open>old_pos\<close> and appended,
  the next \<open>extra_len\<close> extra bytes are appended, and \<open>old_pos\<close> moves on by
  \<open>copy_len + seek_len\<close>. The walk stops when the output has reached the new length
  or the tuples are used up, and the output must then have exactly the new length.
  A read outside a stream or outside the old data fails; so does a negative
  \<open>copy_len\<close> or \<open>extra_len\<close>, for which no stream has bytes.
\<close>

definition add_step :: "bytes \<Rightarrow> bytes \<Rightarrow> bytes" where
  "add_step diff_bytes old_bytes = map2 (+) diff_bytes old_bytes"

definition finish_patch :: "int \<Rightarrow> bytes \<Rightarrow> error + bytes" where
  "finish_patch new_data_length out =
     (if int (length out) = new_data_length then Inr out
      else Inl (PatchApplyError ''length mismatch''))"

fun patch_steps :: "bytes \<Rightarrow> int \<Rightarrow> (int \<times> int \<times> int) list \<Rightarrow> bytes \<Rightarrow> bytes
    \<Rightarrow> nat \<Rightarrow> nat \<Rightarrow> int \<Rightarrow> bytes \<Rightarrow> error + bytes" where
  "patch_steps old_data n [] diff_stream extra_stream diff_pos extra_pos old_pos out =
     finish_patch n out"
| "patch_steps old_data n ((copy_len, extra_len, seek_len) # cs) diff_stream extra_stream
       diff_pos extra_pos old_pos out =
     (if n \<le> int (length out) then finish_patch n out
      else if copy_len < 0 \<or> length diff_stream < diff_pos + nat copy_len
        then Inl (PatchApplyError ''stream exhausted'')
      else if 0 < copy_len \<and> (old_pos < 0 \<or> int (length old_data) < old_pos + copy_len)
        then Inl (PatchApplyError ''stream exhausted'')
      else if extra_len < 0 \<or> length extra_stream < extra_pos + nat extra_len
        then Inl (PatchApplyError ''stream exhausted'')
      else patch_steps old_data n cs diff_stream extra_stream
             (diff_pos + nat copy_len) (extra_pos + nat extra_len)
             (old_pos + copy_len + seek_len)
             (out @ add_step (pyslice diff_stream diff_pos (diff_pos + nat copy_len))
                             (pyslice old_data (nat old_pos) (nat old_pos + nat copy_len))
                  @ pyslice extra_stream extra_pos (extra_pos + nat extra_len)))"

definition apply_patch :: "bytes \<Rightarrow> int \<Rightarrow> (int \<times> int \<times> int) list \<Rightarrow> bytes \<Rightarrow> bytes
    \<Rightarrow> error + bytes" where
  "apply_patch old_data new_data_length control_stream diff_stream extra_stream =
     patch_steps old_data new_data_length control_stream diff_stream extra_stream 0 0 0 []"

text \<open>
  The cursors before the \<open>k\<close>-th control tuple, when every tuple before it was walked:
  the sums of the lengths so far.
\<close>

definition new_pos_at :: "(int \<times> int \<times> int) list \<Rightarrow> nat \<Rightarrow> nat" where
  "new_pos_at cs k = sum_list (map (\<lambda>(x, y, z). nat x + nat y) (take k cs))"

definition diff_pos_at :: "(int \<times> int \<times> int) list \<Rightarrow> nat \<Rightarrow> nat" where
  "diff_pos_at cs k = sum_list (map (\<lambda>(x, y, z). nat x) (take k cs))"

definition old_pos_at :: "(int \<times> int \<times> int) list \<Rightarrow> nat \<Rightarrow> int" where
  "old_pos_at cs k = sum_list (map (\<lambda>(x, y, z). x + z) (take k cs))"

section \<open>An instance of the libraries\<close>

text \<open>
  The theorems below hold for every value of the library parameters. To run the model
  on concrete inputs the parameters are instantiated: \<open>example_digest\<close> is a 32-byte
  checksum in the place of SHA-256, the example codecs reject every input (the examples
  use stored streams only), the patch is applied by \<open>apply_patch\<close>, and
  \<open>example_resolve\<close> names a file by its path without a leading \<open>./\<close>, so that
  \<open>./old/x.img\<close> and \<open>old/x.img\<close> are one file.

  Modelled from the spec: \<open>bsdiff4.core.decode_int64\<close> and \<open>bsdiff4.format.MAGIC\<close> are
  not among the sources. \<open>example_decode_int64\<close> reads exactly 8 bytes as a big-endian
  signed 64-bit integer, as section 4.2 words it, and the magic is the one of the
  classic bsdiff container.
\<close>

definition example_digest :: "bytes \<Rightarrow> bytes" where
  "example_digest d = replicate 31 0 @ [sum_list d]"

definition example_int64 :: "bytes \<Rightarrow> int" where
  "example_int64 b =
     (let v = foldl (\<lambda>acc x. acc * 256 + uint x) 0 b
      in if v < 2 ^ 63 then v else v - 2 ^ 64)"

definition example_decode_int64 :: "bytes \<Rightarrow> error + int" where
  "example_decode_int64 b =
     (if length b \<noteq> 8 then Inl (ValueError ''8 bytes expected'')
      else Inr (example_int64 b))"

definition example_resolve :: "string \<Rightarrow> file_id" where
  "example_resolve p = (if take 2 p = ''./'' then drop 2 p else p)"

definition example_patch :: "bytes \<Rightarrow> int \<Rightarrow> (int \<times> int \<times> int) list \<Rightarrow> bytes option
    \<Rightarrow> bytes option \<Rightarrow> error + bytes" where
  "example_patch old_data n cs bdiff bextra =
     (case bdiff of None \<Rightarrow> Inl TypeError
      | Some d \<Rightarrow> (case bextra of None \<Rightarrow> Inl TypeError
                   | Some x \<Rightarrow> apply_patch old_data n cs d x))"

definition example_libs :: libs where
  "example_libs =
     \<lparr>sha256 = example_digest,
      lzma_decompress = (\<lambda>d. Inl OSError),
      zstd_decompress = (\<lambda>d. Inl OSError),
      bz2_decompressor = (\<lambda>d. Inl OSError),
      bz2_decompress = (\<lambda>d. Inl OSError),
      brotli_decompress = (\<lambda>d. Inl OSError),
      bsdiff4_MAGIC = [0x42, 0x53, 0x44, 0x49, 0x46, 0x46, 0x34, 0x30],
      decode_int64 = example_decode_int64,
      patch = example_patch,
      resolve_path = example_resolve\<rparr>"

text \<open>
  Example inputs. \<open>example_bsdf2 a b c\<close> is a BSDF2 patch with the codec bytes \<open>a\<close>, \<open>b\<close>,
  \<open>c\<close>, a control stream of 24 bytes holding the one tuple \<open>(3, 0, 2)\<close>, the diff stream
  \<open>[1, 1, 1]\<close>, no extra stream and the new length 3.
\<close>

definition example_bsdf2 :: "byte \<Rightarrow> byte \<Rightarrow> byte \<Rightarrow> bytes" where
  "example_bsdf2 a b c =
     [0x42, 0x53, 0x44, 0x46, 0x32, a, b, c,
      0, 0, 0, 0, 0, 0, 0, 24,
      0, 0, 0, 0, 0, 0, 0, 3,
      0, 0, 0, 0, 0, 0, 0, 3,
      0, 0, 0, 0, 0, 0, 0, 3,
      0, 0, 0, 0, 0, 0, 0, 0,
      0, 0, 0, 0, 0, 0, 0, 2,
      1, 1, 1]"

text \<open>\<open>example_misaligned\<close> is a BSDF2 patch of stored streams whose control stream has 25 bytes.\<close>

definition example_misaligned :: bytes where
  "example_misaligned =
     [0x42, 0x53, 0x44, 0x46, 0x32, 0, 0, 0,
      0, 0, 0, 0, 0, 0, 0, 25,
      0, 0, 0, 0, 0, 0, 0, 0,
      0, 0, 0, 0, 0, 0, 0, 0,
      0, 0, 0, 0, 0, 0, 0, 0,
      0, 0, 0, 0, 0, 0, 0, 0,
      0, 0, 0, 0, 0, 0, 0, 0,
      0]"

definition example_classic :: bytes where
  "example_classic = [0x42, 0x53, 0x44, 0x49, 0x46, 0x46, 0x34, 0x30, 0, 0, 0, 0, 0, 0, 0, 0]"

definition example_globals :: globals where
  "example_globals =
     \<lparr>args_payloadfile = [7, 7, 1, 2, 3, 4], global_data_offset = 2, block_size = 2,
      args_diff = True, args_out = ''output'', args_old = ''old'', args_images = []\<rparr>"

definition example_state :: io_state where
  "example_state =
     \<lparr>files = [''output/system.img'' \<mapsto> [], ''old/system.img'' \<mapsto> [10, 20, 30, 40, 50, 60]],
      out_file = \<lparr>f_file = ''output/system.img'', f_pos = 0\<rparr>,
      old_file = Some \<lparr>f_file = ''old/system.img'', f_pos = 0\<rparr>\<rparr>"

definition example_op :: "op_type \<Rightarrow> bytes \<Rightarrow> extent list \<Rightarrow> extent list \<Rightarrow> install_operation" where
  "example_op t h src dst =
     \<lparr>op_type = t, data_offset = 0, data_length = 4, data_sha256_hash = h,
      src_extents = src, dst_extents = dst\<rparr>"

definition example_boot :: partition_update where
  "example_boot =
     \<lparr>partition_name = ''boot'',
      operations = [example_op REPLACE [] [] [\<lparr>start_block = 0, num_blocks = 2\<rparr>],
                    example_op (OTHER 255) [] [] [\<lparr>start_block = 2, num_blocks = 1\<rparr>]]\<rparr>"

definition example_system :: partition_update where
  "example_system =
     \<lparr>partition_name = ''system'',
      operations = [example_op REPLACE [] [] [\<lparr>start_block = 0, num_blocks = 2\<rparr>]]\<rparr>"

definition example_copy_part :: partition_update where
  "example_copy_part =
     \<lparr>partition_name = ''system'',
      operations = [example_op SOURCE_COPY [] [\<lparr>start_block = 0, num_blocks = 2\<rparr>]
                      [\<lparr>start_block = 0, num_blocks = 2\<rparr>]]\<rparr>"

section \<open>Frames\<close>

text \<open>
  \<open>unchanged_at p s s'\<close>: from state \<open>s\<close> to state \<open>s'\<close> the file \<open>p\<close> has kept its
  contents, and the output file object its file.
\<close>

definition unchanged_at :: "string \<Rightarrow> io_state \<Rightarrow> io_state \<Rightarrow> bool" where
  "unchanged_at p s s' \<longleftrightarrow>
     files s' p = files s p \<and> f_file (out_file s') = f_file (out_file s)"

text \<open>\<open>zero_at s i\<close>: the output image of state \<open>s\<close> has a byte at offset \<open>i\<close>, and it is 0.\<close>

definition zero_at :: "io_state \<Rightarrow> nat \<Rightarrow> bool" where
  "zero_at s i \<longleftrightarrow>
     i < length (contents_of (files s) (f_file (out_file s))) \<and>
     contents_of (files s) (f_file (out_file s)) ! i = 0"

section \<open>Contiguity check\<close>

lemma verify_contiguous_from_covers:
  "verify_contiguous_from b exts \<Longrightarrow>
     concat (map extent_blocks exts) = [b ..< b + total_blocks exts]"
proof (induction exts arbitrary: b)
  case Nil
  then show ?case by (simp add: total_blocks_def)
next
  case (Cons e exts)
  from Cons.prems have s: "start_block e = b"
    and r: "verify_contiguous_from (b + num_blocks e) exts"
    by (simp_all split: if_splits)
  have "concat (map extent_blocks exts) =
          [b + num_blocks e ..< b + num_blocks e + total_blocks exts]"
    by (rule Cons.IH [OF r])
  moreover have "[b ..< b + (num_blocks e + total_blocks exts)] =
      [b ..< b + num_blocks e] @ [b + num_blocks e ..< b + num_blocks e + total_blocks exts]"
    using upt_add_eq_append [of b "b + num_blocks e" "total_blocks exts"]
    by (simp only: add.assoc le_add1)
  moreover have "extent_blocks e = [b ..< b + num_blocks e]"
    using s by (simp add: extent_blocks_def)
  moreover have "total_blocks (e # exts) = num_blocks e + total_blocks exts"
    by (simp add: total_blocks_def)
  ultimately show ?case by simp
qed

lemma covers_verify_contiguous_from:
  "\<forall>e \<in> set exts. 0 < num_blocks e \<Longrightarrow>
   concat (map extent_blocks exts) = [b ..< b + total_blocks exts] \<Longrightarrow>
   verify_contiguous_from b exts"
proof (induction exts arbitrary: b)
  case Nil
  then show ?case by simp
next
  case (Cons e exts)
  let ?n = "num_blocks e" and ?t = "total_blocks exts"
  from Cons.prems(1) have pos: "0 < ?n" by simp
  have eb: "extent_blocks e = [start_block e ..< start_block e + ?n]"
    by (simp add: extent_blocks_def)
  have tb: "total_blocks (e # exts) = ?n + ?t"
    by (simp add: total_blocks_def)
  have eq: "[start_block e ..< start_block e + ?n] @ concat (map extent_blocks exts)
              = [b ..< b + (?n + ?t)]"
    using Cons.prems(2) eb tb by simp
  have "hd ([start_block e ..< start_block e + ?n] @ concat (map extent_blocks exts))
          = start_block e"
    using pos by (simp add: upt_conv_Cons)
  moreover have "hd [b ..< b + (?n + ?t)] = b"
    using pos by (simp add: upt_conv_Cons)
  ultimately have s: "start_block e = b" using eq by simp
  have "[b ..< b + (?n + ?t)] = [b ..< b + ?n] @ [b + ?n ..< b + ?n + ?t]"
    using upt_add_eq_append [of b "b + ?n" ?t]
    by (simp only: add.assoc le_add1)
  with eq s have "concat (map extent_blocks exts) = [b + ?n ..< b + ?n + ?t]"
    by simp
  with Cons.IH [of "b + ?n"] Cons.prems(1)
  have "verify_contiguous_from (b + ?n) exts" by simp
  with s show ?case by simp
qed

text \<open>
  Claim C7 as stated: for every finite sequence of extents, \<open>verify_contiguous\<close> returns
  true if and only if the extents in appearance order cover \<open>[0, total_blocks)\<close> from
  block 0 with no gaps and no overlaps. It fails where an extent has no blocks: the
  blocks of \<open>[(0,2), (7,0), (2,3)]\<close> are exactly \<open>0, 1, 2, 3, 4\<close>, and the loop returns
  false at the empty extent, whose start block 7 is not the running count 2.
\<close>

theorem verify_contiguous_empty_extent_counterexample:
  "\<not> (verify_contiguous
         [\<lparr>start_block = 0, num_blocks = 2\<rparr>, \<lparr>start_block = 7, num_blocks = 0\<rparr>,
          \<lparr>start_block = 2, num_blocks = 3\<rparr>]
       \<longleftrightarrow>
       covers_from_zero
         [\<lparr>start_block = 0, num_blocks = 2\<rparr>, \<lparr>start_block = 7, num_blocks = 0\<rparr>,
          \<lparr>start_block = 2, num_blocks = 3\<rparr>])"
  by code_simp

text \<open>
  Claim C7, amended: whenever \<open>verify_contiguous\<close> returns true the extents in appearance
  order cover \<open>[0, total_blocks)\<close> from block 0 with no gaps and no overlaps; for
  extents that all have at least one block it returns true if and only if they do.
  It returns false for \<open>[(0,2), (3,1)]\<close> and true for \<open>[(0,2), (2,3)]\<close>.
\<close>

theorem verify_contiguous_iff_covers:
  "(verify_contiguous exts \<longrightarrow> covers_from_zero exts) \<and>
   ((\<forall>e \<in> set exts. 0 < num_blocks e) \<longrightarrow>
      (verify_contiguous exts \<longleftrightarrow> covers_from_zero exts)) \<and>
   \<not> verify_contiguous
       [\<lparr>start_block = 0, num_blocks = 2\<rparr>, \<lparr>start_block = 3, num_blocks = 1\<rparr>] \<and>
   verify_contiguous
       [\<lparr>start_block = 0, num_blocks = 2\<rparr>, \<lparr>start_block = 2, num_blocks = 3\<rparr>]"
proof -
  have sound: "verify_contiguous exts \<Longrightarrow> covers_from_zero exts"
    using verify_contiguous_from_covers [of 0 exts]
    by (simp add: verify_contiguous_def covers_from_zero_def)
  have complete: "\<forall>e \<in> set exts. 0 < num_blocks e \<Longrightarrow> covers_from_zero exts
      \<Longrightarrow> verify_contiguous exts"
    using covers_verify_contiguous_from [of exts 0]
    by (simp add: verify_contiguous_def covers_from_zero_def)
  have gap: "\<not> verify_contiguous
       [\<lparr>start_block = 0, num_blocks = 2\<rparr>, \<lparr>start_block = 3, num_blocks = 1\<rparr>]"
    by (simp add: verify_contiguous_def)
  have adjacent: "verify_contiguous
       [\<lparr>start_block = 0, num_blocks = 2\<rparr>, \<lparr>start_block = 2, num_blocks = 3\<rparr>]"
    by (simp add: verify_contiguous_def)
  from sound complete gap adjacent show ?thesis by blast
qed

theorem verify_contiguous_iff_covers_witness:
  "list_all (\<lambda>e. 0 < num_blocks e)
     [\<lparr>start_block = 0, num_blocks = 2\<rparr>, \<lparr>start_block = 2, num_blocks = 3\<rparr>] \<and>
   verify_contiguous [\<lparr>start_block = 0, num_blocks = 2\<rparr>, \<lparr>start_block = 2, num_blocks = 3\<rparr>] \<and>
   covers_from_zero [\<lparr>start_block = 0, num_blocks = 2\<rparr>, \<lparr>start_block = 2, num_blocks = 3\<rparr>]"
proof -
  let ?X = "[\<lparr>start_block = 0, num_blocks = 2\<rparr>, \<lparr>start_block = 2, num_blocks = 3\<rparr>]"
  have nonempty: "\<forall>e \<in> set ?X. 0 < num_blocks e" by simp
  with verify_contiguous_iff_covers [of ?X]
  have "verify_contiguous ?X \<and> covers_from_zero ?X" by blast
  then show ?thesis by simp
qed

section \<open>Hash gate\<close>

text \<open>
  Claim C2. For every operation whose \<open>data_sha256_hash\<close> field is present, if the digest
  of the raw payload bytes read for the operation differs from the field, \<open>data_for_op\<close>
  fails with the hash mismatch error, and the state it fails in is the state it started
  in: no byte was written to the output image.
\<close>

theorem hash_mismatch_fails_before_write:
  "data_sha256_hash op \<noteq> [] \<Longrightarrow>
   sha256 L (payload_read G op) \<noteq> data_sha256_hash op \<Longrightarrow>
   data_for_op L G op s = (Inl (AssertionError ''Data hash mismatch''), s)"
  by (simp add: data_for_op_def)

theorem hash_mismatch_fails_before_write_witness:
  "data_sha256_hash (example_op REPLACE (replicate 32 1) [] [\<lparr>start_block = 0, num_blocks = 2\<rparr>]) \<noteq> [] \<and>
   sha256 example_libs (payload_read example_globals
       (example_op REPLACE (replicate 32 1) [] [\<lparr>start_block = 0, num_blocks = 2\<rparr>]))
     \<noteq> data_sha256_hash (example_op REPLACE (replicate 32 1) [] [\<lparr>start_block = 0, num_blocks = 2\<rparr>]) \<and>
   data_for_op example_libs example_globals
       (example_op REPLACE (replicate 32 1) [] [\<lparr>start_block = 0, num_blocks = 2\<rparr>]) example_state
     = (Inl (AssertionError ''Data hash mismatch''), example_state)"
proof -
  let ?op = "example_op REPLACE (replicate 32 1) [] [\<lparr>start_block = 0, num_blocks = 2\<rparr>]"
  have present: "data_sha256_hash ?op \<noteq> []"
    by (simp add: example_op_def)
  have differs: "sha256 example_libs (payload_read example_globals ?op) \<noteq> data_sha256_hash ?op"
    by code_simp
  from present differs
    hash_mismatch_fails_before_write [of ?op example_libs example_globals example_state]
  show ?thesis by blast
qed

section \<open>Magic and codecs of a patch\<close>

lemma bio_read_magic: "8 \<le> length fi \<Longrightarrow> bio_read fi 0 8 = (take 8 fi, 8)"
  by (simp add: bio_read_def)

lemma read_patch_header_magic_error:
  "read_magic L (fst (bio_read fi 0 8)) = Inl e \<Longrightarrow> read_patch_header L fi = Inl e"
  by (auto simp: read_patch_header_def split: prod.splits)

lemma read_patch_header_algs:
  "read_patch_header L fi = Inr h \<Longrightarrow>
   read_magic L (fst (bio_read fi 0 8)) = Inr (alg_control h, alg_diff h, alg_extra h)"
  by (auto simp: read_patch_header_def split: prod.splits sum.splits)

lemma bsdf2_read_patch_header_error:
  "read_patch_header L fi = Inl e \<Longrightarrow> bsdf2_read_patch L fi = Inl e"
  by (simp add: bsdf2_read_patch_def read_bcontrol_def)

text \<open>
  Claim C3. For every 8-byte magic read by \<open>bsdf2_read_patch\<close>: the classic bsdiff magic
  sets the three codecs to 1, the codec that \<open>bsdf2_decompress\<close> hands to bzip2; a magic
  whose first 5 bytes are the BSDF2 signature sets them from its bytes 5, 6 and 7; any
  other magic makes the decoder fail with the invalid magic error. The codecs of a header
  that was read are the ones chosen from the magic. The library's classic magic is a
  parameter, taken not to begin with the BSDF2 signature.
\<close>

theorem magic_selects_codecs:
  "8 \<le> length fi \<Longrightarrow> take 5 (bsdiff4_MAGIC L) \<noteq> BSDF2_MAGIC \<Longrightarrow>
   (take 8 fi = bsdiff4_MAGIC L \<longrightarrow>
      read_magic L (take 8 fi) = Inr (1, 1, 1) \<and>
      bsdf2_decompress L 1 d = map_sum id Some (bz2_decompress L d)) \<and>
   (take 5 fi = BSDF2_MAGIC \<longrightarrow>
      read_magic L (take 8 fi) = Inr (unat (fi ! 5), unat (fi ! 6), unat (fi ! 7))) \<and>
   (take 8 fi \<noteq> bsdiff4_MAGIC L \<and> take 5 fi \<noteq> BSDF2_MAGIC \<longrightarrow>
      bsdf2_read_patch L fi = Inl (ValueError ''Invalid bsdiff/BSDF2 magic signature'')) \<and>
   (read_patch_header L fi = Inr h \<longrightarrow>
      read_magic L (take 8 fi) = Inr (alg_control h, alg_diff h, alg_extra h))"
proof (intro conjI impI)
  assume len: "8 \<le> length fi" and lib: "take 5 (bsdiff4_MAGIC L) \<noteq> BSDF2_MAGIC"
  have t5: "take 5 (take 8 fi) = take 5 fi" by (simp add: min_def)
  { assume "take 8 fi = bsdiff4_MAGIC L"
    then show "read_magic L (take 8 fi) = Inr (1, 1, 1)" by (simp add: read_magic_def) }
  show "bsdf2_decompress L 1 d = map_sum id Some (bz2_decompress L d)"
    by (simp add: bsdf2_decompress_def)
  { assume b: "take 5 fi = BSDF2_MAGIC"
    with lib t5 have "take 8 fi \<noteq> bsdiff4_MAGIC L" by metis
    with b t5 len show "read_magic L (take 8 fi) = Inr (unat (fi ! 5), unat (fi ! 6), unat (fi ! 7))"
      by (simp add: read_magic_def) }
  { assume "take 8 fi \<noteq> bsdiff4_MAGIC L \<and> take 5 fi \<noteq> BSDF2_MAGIC"
    with t5 have "read_magic L (take 8 fi) = Inl (ValueError ''Invalid bsdiff/BSDF2 magic signature'')"
      by (simp add: read_magic_def)
    with len show "bsdf2_read_patch L fi = Inl (ValueError ''Invalid bsdiff/BSDF2 magic signature'')"
      by (simp add: bsdf2_read_patch_header_error read_patch_header_magic_error bio_read_magic) }
  { assume "read_patch_header L fi = Inr h"
    from read_patch_header_algs [OF this] len
    show "read_magic L (take 8 fi) = Inr (alg_control h, alg_diff h, alg_extra h)"
      by (simp add: bio_read_magic) }
qed

lemma example_magic_not_BSDF2: "take 5 (bsdiff4_MAGIC example_libs) \<noteq> BSDF2_MAGIC"
  by (simp add: example_libs_def BSDF2_MAGIC_def)

theorem magic_selects_codecs_witness:
  "read_magic example_libs (take 8 example_classic) = Inr (1, 1, 1) \<and>
   read_magic example_libs (take 8 (example_bsdf2 0 1 2)) = Inr (0, 1, 2) \<and>
   bsdf2_read_patch example_libs [0x41, 0x41, 0x41, 0x41, 0x41, 0x41, 0x41, 0x41] =
     Inl (ValueError ''Invalid bsdiff/BSDF2 magic signature'')"
proof -
  note lib = example_magic_not_BSDF2
  let ?junk = "[0x41, 0x41, 0x41, 0x41, 0x41, 0x41, 0x41, 0x41] :: bytes"
  have "8 \<le> length example_classic" by (simp add: example_classic_def)
  moreover have "take 8 example_classic = bsdiff4_MAGIC example_libs"
    by (simp add: example_classic_def example_libs_def)
  ultimately have a: "read_magic example_libs (take 8 example_classic) = Inr (1, 1, 1)"
    using magic_selects_codecs [of example_classic example_libs, OF _ lib] by blast
  have "8 \<le> length (example_bsdf2 0 1 2)" by (simp add: example_bsdf2_def)
  moreover have "take 5 (example_bsdf2 0 1 2) = BSDF2_MAGIC"
    by (simp add: example_bsdf2_def BSDF2_MAGIC_def)
  ultimately have "read_magic example_libs (take 8 (example_bsdf2 0 1 2)) =
      Inr (unat (example_bsdf2 0 1 2 ! 5), unat (example_bsdf2 0 1 2 ! 6),
           unat (example_bsdf2 0 1 2 ! 7))"
    using magic_selects_codecs [of "example_bsdf2 0 1 2" example_libs, OF _ lib] by blast
  then have b: "read_magic example_libs (take 8 (example_bsdf2 0 1 2)) = Inr (0, 1, 2)"
    by (simp add: example_bsdf2_def)
  have "8 \<le> length ?junk" by simp
  moreover have "take 8 ?junk \<noteq> bsdiff4_MAGIC example_libs"
    by (simp add: example_libs_def)
  moreover have "take 5 ?junk \<noteq> BSDF2_MAGIC"
    by (simp add: BSDF2_MAGIC_def)
  ultimately have c: "bsdf2_read_patch example_libs ?junk =
     Inl (ValueError ''Invalid bsdiff/BSDF2 magic signature'')"
    using magic_selects_codecs [of "?junk" example_libs, OF _ lib] by blast
  from a b c show ?thesis by blast
qed

text \<open>
  Claim C9. For every algorithm identifier outside \<open>{0, 1, 2}\<close> and any input,
  \<open>bsdf2_decompress\<close> returns \<open>None\<close> and raises nothing. So a patch whose header selects
  such a codec for the control stream passes the decompression step with \<open>None\<close> for the
  stream; the decoder then fails with the TypeError of \<open>len(None)\<close>, not with an error of
  a codec or of the patch format.
\<close>

theorem unknown_codec_returns_None:
  "(alg \<notin> {0, 1, 2} \<longrightarrow> bsdf2_decompress L alg data = Inr None) \<and>
   (read_patch_header L fi = Inr h \<and> alg_control h \<notin> {0, 1, 2} \<longrightarrow>
      (\<exists>p. read_bcontrol L fi = Inr (h, None, p)) \<and> bsdf2_read_patch L fi = Inl TypeError)"
  by (auto simp: bsdf2_decompress_def read_bcontrol_def bsdf2_read_patch_def decode_control_def
      split: prod.splits)

lemma example_header:
  "read_patch_header example_libs (example_bsdf2 a b c) =
     Inr \<lparr>alg_control = unat a, alg_diff = unat b, alg_extra = unat c,
          len_control = 24, len_diff = 3, len_dst = 3, fi_pos = 32\<rparr>"
  by (simp add: read_patch_header_def example_bsdf2_def bio_read_def read_magic_def
      example_libs_def BSDF2_MAGIC_def example_decode_int64_def example_int64_def)

theorem unknown_codec_returns_None_witness:
  "(3::nat) \<notin> {0, 1, 2} \<and>
   bsdf2_decompress example_libs 3 [1, 2] = Inr None \<and>
   bsdf2_read_patch example_libs (example_bsdf2 3 0 0) = Inl TypeError"
proof -
  let ?h = "\<lparr>alg_control = 3, alg_diff = 0, alg_extra = 0,
          len_control = 24, len_diff = 3, len_dst = 3, fi_pos = 32\<rparr>"
  have h: "read_patch_header example_libs (example_bsdf2 3 0 0) = Inr ?h"
    using example_header [of 3 0 0] by simp
  have n: "(3::nat) \<notin> {0, 1, 2}" by simp
  from unknown_codec_returns_None [of 3 example_libs "[1, 2]" "example_bsdf2 3 0 0" ?h] h n
  show ?thesis by simp
qed

section \<open>The source image\<close>

text \<open>
  Every step of \<open>data_for_op\<close> writes through \<open>out_file\<close> only, so every other file
  keeps its contents, whatever the operation does and whether it fails or not.
\<close>

lemma unchanged_at_refl: "unchanged_at p s s"
  by (simp add: unchanged_at_def)

lemma unchanged_at_trans:
  "unchanged_at p s s1 \<Longrightarrow> unchanged_at p s1 s2 \<Longrightarrow> unchanged_at p s s2"
  by (simp add: unchanged_at_def)

lemma out_seek_unchanged: "unchanged_at p s (out_seek n s)"
  by (simp add: unchanged_at_def out_seek_def)

lemma out_write_unchanged: "f_file (out_file s) \<noteq> p \<Longrightarrow> unchanged_at p s (out_write d s)"
  by (simp add: unchanged_at_def out_write_def Let_def)

lemma old_seek_read_unchanged: "old_seek_read a n s = (r, s') \<Longrightarrow> unchanged_at p s s'"
  by (auto simp: unchanged_at_def old_seek_read_def Let_def split: option.splits)

lemma unchanged_at_path: "unchanged_at p s s' \<Longrightarrow> f_file (out_file s') = f_file (out_file s)"
  by (simp add: unchanged_at_def)

lemma source_copy_loop_unchanged:
  "source_copy_loop bs exts d s = (r, s') \<Longrightarrow> f_file (out_file s) \<noteq> p \<Longrightarrow>
   unchanged_at p s s'"
proof (induction exts arbitrary: d s)
  case Nil
  then show ?case by (simp add: unchanged_at_refl)
next
  case (Cons ext exts)
  obtain r1 s1 where rd: "old_seek_read (start_block ext * bs) (num_blocks ext * bs) s = (r1, s1)"
    by (cases "old_seek_read (start_block ext * bs) (num_blocks ext * bs) s")
  have u1: "unchanged_at p s s1" by (rule old_seek_read_unchanged [OF rd])
  show ?case
  proof (cases r1)
    case (Inl e)
    with Cons.prems rd have "s' = s1" by simp
    with u1 show ?thesis by simp
  next
    case (Inr d1)
    with Cons.prems rd have loop: "source_copy_loop bs exts d1 (out_write d1 s1) = (r, s')"
      by simp
    from u1 Cons.prems(2) have p1: "f_file (out_file s1) \<noteq> p"
      by (simp add: unchanged_at_def)
    then have u2: "unchanged_at p s1 (out_write d1 s1)" by (rule out_write_unchanged)
    with p1 have "f_file (out_file (out_write d1 s1)) \<noteq> p"
      by (simp add: unchanged_at_def)
    from Cons.IH [OF loop this] have "unchanged_at p (out_write d1 s1) s'" .
    with u1 u2 show ?thesis by (blast intro: unchanged_at_trans)
  qed
qed

lemma read_src_extents_unchanged:
  "read_src_extents bs exts t s = (r, s') \<Longrightarrow> unchanged_at p s s'"
proof (induction exts arbitrary: t s)
  case Nil
  then show ?case by (simp add: unchanged_at_refl)
next
  case (Cons ext exts)
  obtain r1 s1 where rd: "old_seek_read (start_block ext * bs) (num_blocks ext * bs) s = (r1, s1)"
    by (cases "old_seek_read (start_block ext * bs) (num_blocks ext * bs) s")
  have u1: "unchanged_at p s s1" by (rule old_seek_read_unchanged [OF rd])
  show ?case
  proof (cases r1)
    case (Inl e)
    with Cons.prems rd have "s' = s1" by simp
    with u1 show ?thesis by simp
  next
    case (Inr d1)
    with Cons.prems rd have "read_src_extents bs exts (t @ d1) s1 = (r, s')" by simp
    from Cons.IH [OF this] u1 show ?thesis by (blast intro: unchanged_at_trans)
  qed
qed

lemma seek_write_unchanged:
  "f_file (out_file s) \<noteq> p \<Longrightarrow> unchanged_at p s (out_write d (out_seek n s))"
  by (simp add: unchanged_at_def out_write_def out_seek_def Let_def)

lemma write_dst_extents_unchanged:
  "write_dst_extents bs exts t n d s = (r, s') \<Longrightarrow> f_file (out_file s) \<noteq> p \<Longrightarrow>
   unchanged_at p s s'"
proof (induction exts arbitrary: n d s)
  case Nil
  then show ?case by (simp add: unchanged_at_refl)
next
  case (Cons ext exts)
  let ?d = "take (num_blocks ext * bs) (drop (n * bs) t)"
  let ?s1 = "out_write ?d (out_seek (start_block ext * bs) s)"
  from Cons.prems(1) have loop: "write_dst_extents bs exts t (n + num_blocks ext) ?d ?s1 = (r, s')"
    by (simp add: Let_def)
  have u1: "unchanged_at p s ?s1" by (rule seek_write_unchanged [OF Cons.prems(2)])
  with Cons.prems(2) have "f_file (out_file ?s1) \<noteq> p" by (simp add: unchanged_at_def)
  from Cons.IH [OF loop this] u1 show ?case by (blast intro: unchanged_at_trans)
qed

lemma zero_loop_unchanged:
  "f_file (out_file s) \<noteq> p \<Longrightarrow> unchanged_at p s (zero_loop bs exts s)"
proof (induction exts arbitrary: s)
  case Nil
  then show ?case by (simp add: unchanged_at_refl)
next
  case (Cons ext exts)
  let ?s1 = "out_write (replicate (num_blocks ext * bs) 0) (out_seek (start_block ext * bs) s)"
  have u1: "unchanged_at p s ?s1" by (rule seek_write_unchanged [OF Cons.prems])
  with Cons.prems have "f_file (out_file ?s1) \<noteq> p" by (simp add: unchanged_at_def)
  from Cons.IH [OF this] u1 show ?case by (auto intro: unchanged_at_trans)
qed

lemma write_first_unchanged:
  "write_first G op d s = (r, s') \<Longrightarrow> f_file (out_file s) \<noteq> p \<Longrightarrow> unchanged_at p s s'"
  by (auto simp: write_first_def unchanged_at_refl seek_write_unchanged split: list.splits)

lemma bsdiff_op_unchanged:
  assumes "bsdiff_op L G op data s = (r, s')" and np: "f_file (out_file s) \<noteq> p"
  shows "unchanged_at p s s'"
proof (cases "\<not> args_diff G \<or> dst_extents op = []")
  case True
  with assms(1) have "s' = s" by (auto simp: bsdiff_op_def split: list.splits if_splits)
  then show ?thesis by (simp add: unchanged_at_refl)
next
  case False
  then obtain e es where dst: "dst_extents op = e # es" and d: "args_diff G"
    by (cases "dst_extents op") auto
  let ?s0 = "out_seek (start_block e * block_size G) s"
  obtain r1 s1 where rd: "read_src_extents (block_size G) (src_extents op) [] ?s0 = (r1, s1)"
    by (cases "read_src_extents (block_size G) (src_extents op) [] ?s0")
  have u0: "unchanged_at p s ?s0" by (rule out_seek_unchanged)
  have u1: "unchanged_at p ?s0 s1" by (rule read_src_extents_unchanged [OF rd])
  from u0 u1 have u01: "unchanged_at p s s1" by (rule unchanged_at_trans)
  with np have np1: "f_file (out_file s1) \<noteq> p" by (simp add: unchanged_at_def)
  from assms(1) dst d rd
  have "s' = s1 \<or>
        (\<exists>t d0 r2. write_dst_extents (block_size G) (e # es) t 0 d0 s1 = (r2, s'))"
    by (auto simp: bsdiff_op_def Let_def simp del: write_dst_extents.simps
        split: sum.splits prod.splits)
  then show ?thesis
  proof
    assume "s' = s1"
    with u01 show ?thesis by simp
  next
    assume "\<exists>t d0 r2. write_dst_extents (block_size G) (e # es) t 0 d0 s1 = (r2, s')"
    then obtain t d0 r2 where
      "write_dst_extents (block_size G) (e # es) t 0 d0 s1 = (r2, s')" by blast
    from write_dst_extents_unchanged [OF this np1] u01 show ?thesis
      by (blast intro: unchanged_at_trans)
  qed
qed

lemma data_for_op_unchanged:
  assumes "data_for_op L G op s = (r, s')" and np: "f_file (out_file s) \<noteq> p"
  shows "unchanged_at p s s'"
proof (cases "data_sha256_hash op \<noteq> [] \<and> sha256 L (payload_read G op) \<noteq> data_sha256_hash op")
  case True
  with assms(1) have "s' = s" by (simp add: data_for_op_def)
  then show ?thesis by (simp add: unchanged_at_refl)
next
  case False
  note gate = this
  show ?thesis
  proof (cases "op_type op")
    case REPLACE
    with assms(1) gate have "write_first G op (payload_read G op) s = (r, s')"
      by (simp add: data_for_op_def)
    then show ?thesis using np by (rule write_first_unchanged)
  next
    case REPLACE_BZ
    with assms(1) gate show ?thesis
      by (auto simp: data_for_op_def unchanged_at_refl split: sum.splits
          intro: write_first_unchanged [OF _ np])
  next
    case REPLACE_XZ
    with assms(1) gate show ?thesis
      by (auto simp: data_for_op_def unchanged_at_refl split: sum.splits
          intro: write_first_unchanged [OF _ np])
  next
    case ZSTD
    with assms(1) gate show ?thesis
      by (auto simp: data_for_op_def unchanged_at_refl split: sum.splits
          intro: write_first_unchanged [OF _ np])
  next
    case ZERO
    with assms(1) gate have "s' = zero_loop (block_size G) (dst_extents op) s"
      by (auto simp: data_for_op_def)
    then show ?thesis using zero_loop_unchanged [OF np] by simp
  next
    case SOURCE_COPY
    show ?thesis
    proof (cases "\<not> args_diff G \<or> dst_extents op = []")
      case True
      with assms(1) gate SOURCE_COPY have "s' = s"
        by (auto simp: data_for_op_def split: list.splits if_splits)
      then show ?thesis by (simp add: unchanged_at_refl)
    next
      case False
      then obtain e es where dst: "dst_extents op = e # es" and d: "args_diff G"
        by (cases "dst_extents op") auto
      let ?s0 = "out_seek (start_block e * block_size G) s"
      from assms(1) gate SOURCE_COPY dst d
      have loop: "source_copy_loop (block_size G) (src_extents op) (payload_read G op) ?s0 = (r, s')"
        by (simp add: data_for_op_def)
      have u0: "unchanged_at p s ?s0" by (rule out_seek_unchanged)
      with np have "f_file (out_file ?s0) \<noteq> p" by (simp add: unchanged_at_def)
      from source_copy_loop_unchanged [OF loop this] u0 show ?thesis
        by (blast intro: unchanged_at_trans)
    qed
  next
    case SOURCE_BSDIFF
    with assms(1) gate have "bsdiff_op L G op (payload_read G op) s = (r, s')"
      by (simp add: data_for_op_def)
    then show ?thesis using np by (rule bsdiff_op_unchanged)
  next
    case BROTLI_BSDIFF
    with assms(1) gate have "bsdiff_op L G op (payload_read G op) s = (r, s')"
      by (simp add: data_for_op_def)
    then show ?thesis using np by (rule bsdiff_op_unchanged)
  next
    case (OTHER n)
    with assms(1) gate have "s' = s" by (auto simp: data_for_op_def)
    then show ?thesis by (simp add: unchanged_at_refl)
  qed
qed

lemma run_operations_unchanged:
  "run_operations L G ops s = (r, s') \<Longrightarrow> f_file (out_file s) \<noteq> p \<Longrightarrow> unchanged_at p s s'"
proof (induction ops arbitrary: s)
  case Nil
  then show ?case by (simp add: unchanged_at_refl)
next
  case (Cons op ops)
  obtain r1 s1 where st: "data_for_op L G op s = (r1, s1)"
    by (cases "data_for_op L G op s")
  have u1: "unchanged_at p s s1" by (rule data_for_op_unchanged [OF st Cons.prems(2)])
  show ?case
  proof (cases r1)
    case (Inl e)
    with Cons.prems(1) st have "s' = s1" by simp
    with u1 show ?thesis by simp
  next
    case (Inr d)
    with Cons.prems(1) st have "run_operations L G ops s1 = (r, s')" by simp
    moreover from u1 Cons.prems(2) have "f_file (out_file s1) \<noteq> p"
      by (simp add: unchanged_at_def)
    ultimately have "unchanged_at p s1 s'" by (rule Cons.IH)
    with u1 show ?thesis by (blast intro: unchanged_at_trans)
  qed
qed

lemma open_files_out:
  "open_files L G part fs = (r, s0) \<Longrightarrow>
   files s0 = fs(resolve_path L (img_path (args_out G) (partition_name part)) \<mapsto> []) \<and>
   f_file (out_file s0) = resolve_path L (img_path (args_out G) (partition_name part))"
  by (auto simp: open_files_def Let_def split: if_splits option.splits)

lemma dump_part_frame:
  assumes "resolve_path L (img_path (args_out G) (partition_name part)) \<noteq> p"
  shows "snd (dump_part L G part fs) p = fs p"
proof -
  obtain r0 s0 where op: "open_files L G part fs = (r0, s0)"
    by (cases "open_files L G part fs")
  from open_files_out [OF op] assms
  have f0: "files s0 p = fs p" and p0: "f_file (out_file s0) \<noteq> p" by simp_all
  show ?thesis
  proof (cases r0)
    case (Inl e)
    with op have "snd (dump_part L G part fs) = files s0" by (simp add: dump_part_def)
    with f0 show ?thesis by simp
  next
    case (Inr u)
    obtain r s where run: "run_operations L G (operations part) s0 = (r, s)"
      by (cases "run_operations L G (operations part) s0")
    with Inr op have "snd (dump_part L G part fs) = files s" by (simp add: dump_part_def)
    moreover have "unchanged_at p s0 s" by (rule run_operations_unchanged [OF run p0])
    ultimately show ?thesis using f0 by (simp add: unchanged_at_def)
  qed
qed

text \<open>
  Claim C10, amended: when the path of the output image and the path of the old image
  of a partition do not name one file, that is, when the operating system resolves them
  to different files, the old image is only read. After \<open>dump_part\<close> has processed any
  sequence of operations, in differential mode or not and with or without an error, the
  contents of the old image are what they were before. That the two paths, or the two
  directories, are different strings is not enough.
\<close>

theorem source_image_unchanged:
  "resolve_path L (img_path (args_out G) (partition_name part))
     \<noteq> resolve_path L (img_path (args_old G) (partition_name part)) \<Longrightarrow>
   snd (dump_part L G part fs) (resolve_path L (img_path (args_old G) (partition_name part)))
     = fs (resolve_path L (img_path (args_old G) (partition_name part)))"
  by (rule dump_part_frame)

theorem source_image_unchanged_witness:
  "resolve_path example_libs (img_path (args_out example_globals) (partition_name example_copy_part))
     \<noteq> resolve_path example_libs
         (img_path (args_old example_globals) (partition_name example_copy_part)) \<and>
   snd (dump_part example_libs example_globals example_copy_part (files example_state))
       ''old/system.img''
     = Some [10, 20, 30, 40, 50, 60]"
proof -
  have o: "resolve_path example_libs
             (img_path (args_out example_globals) (partition_name example_copy_part))
             = ''output/system.img''"
    by (simp add: img_path_def example_globals_def example_copy_part_def example_libs_def
        example_resolve_def)
  have p: "resolve_path example_libs
             (img_path (args_old example_globals) (partition_name example_copy_part))
             = ''old/system.img''"
    by (simp add: img_path_def example_globals_def example_copy_part_def example_libs_def
        example_resolve_def)
  have d: "resolve_path example_libs
             (img_path (args_out example_globals) (partition_name example_copy_part))
           \<noteq> resolve_path example_libs
             (img_path (args_old example_globals) (partition_name example_copy_part))"
    unfolding o p by simp
  have f: "files example_state ''old/system.img'' = Some [10, 20, 30, 40, 50, 60]"
    by (simp add: example_state_def)
  from source_image_unchanged
    [of example_libs example_globals example_copy_part "files example_state", OF d]
  have "snd (dump_part example_libs example_globals example_copy_part (files example_state))
       ''old/system.img'' = Some [10, 20, 30, 40, 50, 60]"
    unfolding p f .
  with d show ?thesis by blast
qed

text \<open>
  Claim C10 as stated: after any sequence of operations the contents of the source image
  are unchanged. It fails when the two image paths name one file, and different
  directory arguments do not exclude that: with \<open>--out ./old\<close> and \<open>--old old\<close> the output
  image \<open>./old/system.img\<close> is the old image \<open>old/system.img\<close>, which \<open>dump_part\<close> cuts to
  length 0 when it opens it for writing and which the operations overwrite. Here the old
  image \<open>[10, 20, 30, 40, 50, 60]\<close> ends as the \<open>[1, 2, 3, 4]\<close> of a REPLACE operation.
\<close>

theorem source_image_overwritten_counterexample:
  "args_out (example_globals\<lparr>args_out := ''./old''\<rparr>)
     \<noteq> args_old (example_globals\<lparr>args_out := ''./old''\<rparr>) \<and>
   files example_state ''old/system.img'' = Some [10, 20, 30, 40, 50, 60] \<and>
   snd (dump_part example_libs (example_globals\<lparr>args_out := ''./old''\<rparr>) example_system
          (files example_state)) ''old/system.img''
     = Some [1, 2, 3, 4]"
  by code_simp

section \<open>Unsupported operations\<close>

lemma run_operations_append_fail:
  "run_operations L G pre s0 = (Inr (), s) \<Longrightarrow> data_for_op L G op s = (Inl e, s') \<Longrightarrow>
   run_operations L G (pre @ op # post) s0 = (Inl e, s')"
proof (induction pre arbitrary: s0)
  case Nil
  then show ?case by simp
next
  case (Cons a pre)
  obtain r1 s1 where st: "data_for_op L G a s0 = (r1, s1)"
    by (cases "data_for_op L G a s0")
  with Cons.prems(1) obtain d where r1: "r1 = Inr d" and rest: "run_operations L G pre s1 = (Inr (), s)"
    by (cases r1) auto
  from Cons.IH [OF rest Cons.prems(2)] st r1 show ?case by simp
qed

text \<open>
  Claim C6, amended: for every operation whose type is not one of the recognized kinds
  and whose hash gate passes, \<open>data_for_op\<close> fails with \<open>sys.exit(-1)\<close> and writes no
  byte: the state is unchanged. The exit ends the whole run: when the operations before
  it in its partition succeeded, the run over that partition and any later partitions
  (all of them, or the images named) ends with the exit status \<open>-1\<close> and the file system
  as it was at the unsupported operation, so that no later partition is attempted.
\<close>

theorem unsupported_operation_exits_run:
  assumes "op_type op = OTHER n"
    and "data_sha256_hash op = [] \<or> sha256 L (payload_read G op) = data_sha256_hash op"
    and "operations part = pre @ op # post"
    and "open_files L G part fs = (Inr (), s0)"
    and "run_operations L G pre s0 = (Inr (), s)"
  shows "data_for_op L G op s = (Inl (SystemExit (- 1)), s) \<and>
         dump_parts L G (part # parts) fs = (Inl (SystemExit (- 1)), files s) \<and>
         (filter (\<lambda>q. partition_name q = img) partitions = part # rest \<longrightarrow>
            dump_images L G (img # imgs) partitions fs = (Inl (SystemExit (- 1)), files s))"
proof -
  from assms(1,2) have a: "data_for_op L G op s = (Inl (SystemExit (- 1)), s)"
    by (auto simp: data_for_op_def)
  from run_operations_append_fail [OF assms(5) a] assms(3)
  have "run_operations L G (operations part) s0 = (Inl (SystemExit (- 1)), s)" by simp
  with assms(4) have b: "dump_part L G part fs = (Inl (SystemExit (- 1)), files s)"
    by (simp add: dump_part_def)
  then have c: "dump_parts L G (part # parts) fs = (Inl (SystemExit (- 1)), files s)" by simp
  from b have "filter (\<lambda>q. partition_name q = img) partitions = part # rest \<Longrightarrow>
      dump_images L G (img # imgs) partitions fs = (Inl (SystemExit (- 1)), files s)"
    by simp
  with a c show ?thesis by blast
qed

theorem unsupported_operation_exits_run_witness:
  "op_type (example_op (OTHER 255) [] [] [\<lparr>start_block = 2, num_blocks = 1\<rparr>]) = OTHER 255 \<and>
   data_sha256_hash (example_op (OTHER 255) [] [] [\<lparr>start_block = 2, num_blocks = 1\<rparr>]) = [] \<and>
   fst (dump_parts example_libs (example_globals\<lparr>args_diff := False\<rparr>)
          [example_boot, example_system] Map.empty) = Inl (SystemExit (- 1))"
proof -
  let ?G = "example_globals\<lparr>args_diff := False\<rparr>"
  let ?op = "example_op (OTHER 255) [] [] [\<lparr>start_block = 2, num_blocks = 1\<rparr>]"
  let ?pre = "[example_op REPLACE [] [] [\<lparr>start_block = 0, num_blocks = 2\<rparr>]]"
  let ?init = "snd (open_files example_libs ?G example_boot Map.empty)"
  let ?mid = "snd (run_operations example_libs ?G ?pre ?init)"
  have t: "op_type ?op = OTHER 255" by (simp add: example_op_def)
  have e: "data_sha256_hash ?op = []" by (simp add: example_op_def)
  then have h: "data_sha256_hash ?op = [] \<or>
      sha256 example_libs (payload_read ?G ?op) = data_sha256_hash ?op" by simp
  have ops: "operations example_boot = ?pre @ ?op # []" by (simp add: example_boot_def)
  have "fst (open_files example_libs ?G example_boot Map.empty) = Inr ()"
    by (simp add: open_files_def Let_def example_globals_def)
  then have o: "open_files example_libs ?G example_boot Map.empty = (Inr (), ?init)"
    by (simp add: prod_eq_iff)
  have "fst (run_operations example_libs ?G ?pre ?init) = Inr ()"
    by (simp add: data_for_op_def write_first_def example_op_def Let_def)
  then have r: "run_operations example_libs ?G ?pre ?init = (Inr (), ?mid)"
    by (simp add: prod_eq_iff)
  from unsupported_operation_exits_run
    [OF t h ops o r, where parts = "[example_system]"]
  have "dump_parts example_libs ?G [example_boot, example_system] Map.empty
          = (Inl (SystemExit (- 1)), files ?mid)" by blast
  with t e show ?thesis by simp
qed

text \<open>
  Claim C6 as stated: the failure is fatal to the operation's partition only and other
  partitions are still attempted. It fails: with an operation of type 255 in the first
  partition the run ends with \<open>SystemExit (-1)\<close> and the image of the second partition is
  never created, while a run over the second partition alone writes it.
\<close>

theorem unsupported_operation_counterexample:
  "fst (dump_all example_libs (example_globals\<lparr>args_diff := False\<rparr>)
          [example_boot, example_system] Map.empty) = Inl (SystemExit (- 1)) \<and>
   snd (dump_all example_libs (example_globals\<lparr>args_diff := False\<rparr>)
          [example_boot, example_system] Map.empty) ''output/system.img'' = None \<and>
   snd (dump_all example_libs (example_globals\<lparr>args_diff := False\<rparr>)
          [example_system] Map.empty) ''output/system.img'' = Some [1, 2, 3, 4]"
  by code_simp

section \<open>SOURCE_COPY\<close>

text \<open>
  Claim C4 says that SOURCE_COPY splits the bytes read from the source extents across the
  destination extents, each at its own offset. The code seeks to \<open>dst_extents[0]\<close> once
  and writes everything after it: with block size 2, the source extent \<open>(0, 2)\<close> and the
  destination extents \<open>(0, 1)\<close> and \<open>(3, 1)\<close>, the four source bytes land at the offsets
  0 to 3 and nothing is written at offset 6, where the second destination extent
  begins. The BSDIFF kinds split their data over the destination extents.
\<close>

theorem source_copy_ignores_dst_extents:
  "files (snd (data_for_op example_libs example_globals
      (example_op SOURCE_COPY [] [\<lparr>start_block = 0, num_blocks = 2\<rparr>]
         [\<lparr>start_block = 0, num_blocks = 1\<rparr>, \<lparr>start_block = 3, num_blocks = 1\<rparr>])
      example_state)) ''output/system.img''
   = Some [10, 20, 30, 40]"
  by code_simp

lemma bsdiff_splits_over_dst_extents:
  "files (snd (data_for_op example_libs
      (example_globals\<lparr>args_payloadfile := example_bsdf2 0 0 0, global_data_offset := 0\<rparr>)
      ((example_op SOURCE_BSDIFF [] [\<lparr>start_block = 0, num_blocks = 2\<rparr>]
         [\<lparr>start_block = 0, num_blocks = 1\<rparr>, \<lparr>start_block = 3, num_blocks = 1\<rparr>])
         \<lparr>data_length := 59\<rparr>)
      example_state)) ''output/system.img''
   = Some [11, 21, 0, 0, 0, 0, 31, 40]"
  by code_simp

section \<open>ZERO\<close>

text \<open>What a write leaves at each offset of the file.\<close>

lemma length_write_at:
  "d \<noteq> [] \<Longrightarrow> length (write_at c p d) = max (length c) (p + length d)"
  by (auto simp: write_at_def)

lemma nth_write_at_inside:
  assumes "i < length d"
  shows "write_at c p d ! (p + i) = d ! i"
proof -
  from assms have ne: "d \<noteq> []" by auto
  have len: "length (take p (c @ replicate (p - length c) 0)) = p" by auto
  from ne have "write_at c p d ! (p + i) =
      (take p (c @ replicate (p - length c) 0) @ d @ drop (p + length d) c) ! (p + i)"
    by (simp add: write_at_def)
  also have "\<dots> = (d @ drop (p + length d) c) ! i"
    using len by (metis nth_append_length_plus)
  also have "\<dots> = d ! i" using assms by (simp add: nth_append)
  finally show ?thesis .
qed

lemma nth_write_at_outside:
  assumes "i < length c" and "i < p \<or> p + length d \<le> i"
  shows "write_at c p d ! i = c ! i"
proof (cases "d = []")
  case True
  then show ?thesis by (simp add: write_at_def)
next
  case False
  have len: "length (take p (c @ replicate (p - length c) 0)) = p" by auto
  from assms(2) show ?thesis
  proof
    assume lt: "i < p"
    have "write_at c p d ! i =
        (take p (c @ replicate (p - length c) 0) @ d @ drop (p + length d) c) ! i"
      using False by (simp add: write_at_def)
    also have "\<dots> = take p (c @ replicate (p - length c) 0) ! i"
      using lt len by (simp only: nth_append if_True)
    also have "\<dots> = (c @ replicate (p - length c) 0) ! i" using lt by (rule nth_take)
    also have "\<dots> = c ! i" using assms(1) by (simp add: nth_append)
    finally show ?thesis .
  next
    assume ge: "p + length d \<le> i"
    then obtain k where k: "i = p + (length d + k)" by (metis le_Suc_ex add.assoc)
    have "write_at c p d ! i =
        (take p (c @ replicate (p - length c) 0) @ d @ drop (p + length d) c) ! (p + (length d + k))"
      using False k by (simp add: write_at_def)
    also have "\<dots> = (d @ drop (p + length d) c) ! (length d + k)"
      using len by (metis nth_append_length_plus)
    also have "\<dots> = drop (p + length d) c ! k" by (rule nth_append_length_plus)
    also have "\<dots> = c ! i" using assms(1) k by (simp add: add.assoc)
    finally show ?thesis .
  qed
qed

lemma contents_seek_write:
  "contents_of (files (out_write d (out_seek p s))) (f_file (out_file (out_write d (out_seek p s))))
     = write_at (contents_of (files s) (f_file (out_file s))) p d"
  by (simp add: out_write_def out_seek_def Let_def contents_of_def)

lemma zero_write_keeps:
  assumes "zero_at s i"
  shows "zero_at (out_write (replicate n 0) (out_seek p s)) i"
proof -
  let ?c = "contents_of (files s) (f_file (out_file s))"
  from assms have i: "i < length ?c" and z: "?c ! i = 0" by (simp_all add: zero_at_def)
  have l: "i < length (write_at ?c p (replicate n 0))"
  proof (cases "n = 0")
    case True
    with i show ?thesis by (simp add: write_at_def)
  next
    case False
    with i show ?thesis by (simp add: length_write_at)
  qed
  have "write_at ?c p (replicate n 0) ! i = 0"
  proof (cases "p \<le> i \<and> i < p + n")
    case True
    then obtain k where k: "i = p + k" "k < n" by (metis le_Suc_ex nat_add_left_cancel_less)
    with nth_write_at_inside [of k "replicate n 0" ?c p] show ?thesis by simp
  next
    case False
    then have "i < p \<or> p + length (replicate n (0::byte)) \<le> i" by auto
    from nth_write_at_outside [OF i this] z show ?thesis by simp
  qed
  with l show ?thesis by (simp add: zero_at_def contents_seek_write)
qed

lemma zero_write_fills:
  assumes "p \<le> i" and "i < p + n"
  shows "zero_at (out_write (replicate n 0) (out_seek p s)) i"
proof -
  let ?c = "contents_of (files s) (f_file (out_file s))"
  from assms have n: "n \<noteq> 0" by auto
  from assms obtain k where k: "i = p + k" "k < n" by (metis le_Suc_ex nat_add_left_cancel_less)
  from n assms have "i < length (write_at ?c p (replicate n 0))"
    by (simp add: length_write_at)
  moreover from nth_write_at_inside [of k "replicate n 0" ?c p] k
  have "write_at ?c p (replicate n 0) ! i = 0" by simp
  ultimately show ?thesis by (simp add: zero_at_def contents_seek_write)
qed

lemma zero_loop_keeps: "zero_at s i \<Longrightarrow> zero_at (zero_loop bs exts s) i"
  by (induction exts arbitrary: s) (simp_all add: zero_write_keeps)

lemma zero_loop_fills:
  "e \<in> set exts \<Longrightarrow> start_block e * bs \<le> i \<Longrightarrow> i < (start_block e + num_blocks e) * bs \<Longrightarrow>
   zero_at (zero_loop bs exts s) i"
proof (induction exts arbitrary: s)
  case Nil
  then show ?case by simp
next
  case (Cons x exts)
  show ?case
  proof (cases "e = x")
    case True
    from Cons.prems(3) have "i < start_block e * bs + num_blocks e * bs"
      by (simp add: add_mult_distrib)
    with Cons.prems(2) True
    have "zero_at (out_write (replicate (num_blocks x * bs) 0) (out_seek (start_block x * bs) s)) i"
      by (simp add: zero_write_fills)
    then show ?thesis by (simp add: zero_loop_keeps)
  next
    case False
    with Cons.prems(1) have "e \<in> set exts" by simp
    from Cons.IH [OF this Cons.prems(2,3)] show ?thesis by simp
  qed
qed

text \<open>
  Claim C8. Every ZERO operation whose hash gate passes completes, and after it every
  byte in the byte range \<open>[start_block * block_size, (start_block + num_blocks) * block_size)\<close>
  of every destination extent exists in the output image and is \<open>0x00\<close>. A later extent of
  the operation writes zeros only, so it cannot spoil an earlier one.
\<close>

theorem zero_operation_fills_extents:
  assumes "op_type op = ZERO"
    and "data_sha256_hash op = [] \<or> sha256 L (payload_read G op) = data_sha256_hash op"
  shows "\<exists>s'. data_for_op L G op s = (Inr (payload_read G op), s') \<and>
           (\<forall>e \<in> set (dst_extents op). \<forall>i.
              start_block e * block_size G \<le> i \<and>
              i < (start_block e + num_blocks e) * block_size G \<longrightarrow> zero_at s' i)"
proof -
  from assms have "data_for_op L G op s =
      (Inr (payload_read G op), zero_loop (block_size G) (dst_extents op) s)"
    by (auto simp: data_for_op_def)
  then show ?thesis by (auto intro: zero_loop_fills)
qed

theorem zero_operation_fills_extents_witness:
  "op_type (example_op ZERO [] [] [\<lparr>start_block = 0, num_blocks = 1\<rparr>, \<lparr>start_block = 3, num_blocks = 1\<rparr>]) = ZERO \<and>
   zero_at (snd (data_for_op example_libs example_globals
       (example_op ZERO [] [] [\<lparr>start_block = 0, num_blocks = 1\<rparr>, \<lparr>start_block = 3, num_blocks = 1\<rparr>])
       example_state)) 7"
proof -
  let ?op = "example_op ZERO [] [] [\<lparr>start_block = 0, num_blocks = 1\<rparr>, \<lparr>start_block = 3, num_blocks = 1\<rparr>]"
  have t: "op_type ?op = ZERO" by (simp add: example_op_def)
  have h: "data_sha256_hash ?op = [] \<or>
      sha256 example_libs (payload_read example_globals ?op) = data_sha256_hash ?op"
    by (simp add: example_op_def)
  from zero_operation_fills_extents [OF t h, of example_state]
  obtain s' where r: "data_for_op example_libs example_globals ?op example_state
        = (Inr (payload_read example_globals ?op), s')"
    and z: "\<forall>e \<in> set (dst_extents ?op). \<forall>i.
              start_block e * block_size example_globals \<le> i \<and>
              i < (start_block e + num_blocks e) * block_size example_globals \<longrightarrow> zero_at s' i"
    by blast
  have "\<lparr>start_block = 3, num_blocks = 1\<rparr> \<in> set (dst_extents ?op)"
    by (simp add: example_op_def)
  with z have "start_block \<lparr>start_block = 3, num_blocks = 1\<rparr> * block_size example_globals \<le> 7 \<and>
      7 < (start_block \<lparr>start_block = 3, num_blocks = 1\<rparr> + num_blocks \<lparr>start_block = 3, num_blocks = 1\<rparr>)
            * block_size example_globals \<longrightarrow> zero_at s' 7"
    by blast
  then have "zero_at s' 7" by (simp add: example_globals_def)
  with r t show ?thesis by simp
qed

section \<open>Control stream\<close>

lemma record_end: "k < length bc div 24 \<Longrightarrow> 24 * k + 24 \<le> length bc"
proof -
  assume k: "k < length bc div 24"
  define q r where "q = length bc div 24" and "r = length bc mod 24"
  have e: "length bc = 24 * q + r" by (simp add: q_def r_def)
  from k have "k < q" by (simp add: q_def)
  then have "24 * k + 24 \<le> 24 * q" by simp
  with e show ?thesis by simp
qed

lemma full_slices:
  assumes "k < length bc div 24"
  shows "length (pyslice bc (24 * k) (24 * k + 8)) = 8"
    and "length (pyslice bc (24 * k + 8) (24 * k + 16)) = 8"
    and "length (pyslice bc (24 * k + 16) (24 * k + 24)) = 8"
proof -
  note le = record_end [OF assms]
  from le show "length (pyslice bc (24 * k) (24 * k + 8)) = 8" by (simp add: pyslice_def)
  from le show "length (pyslice bc (24 * k + 8) (24 * k + 16)) = 8" by (simp add: pyslice_def)
  from le show "length (pyslice bc (24 * k + 16) (24 * k + 24)) = 8" by (simp add: pyslice_def)
qed

lemma short_last_slice:
  assumes "length bc mod 24 \<noteq> 0"
  shows "length (pyslice bc (24 * (length bc div 24) + 16) (24 * (length bc div 24) + 24)) \<noteq> 8"
proof -
  define q r where "q = length bc div 24" and "r = length bc mod 24"
  have e: "length bc = 24 * q + r" by (simp add: q_def r_def)
  have r: "r < 24" by (simp add: r_def)
  from e r have "length bc - (24 * q + 16) < 8" by simp
  then have "length bc - (24 * (length bc div 24) + 16) < 8" by (simp add: q_def)
  then show ?thesis by (simp add: pyslice_def)
qed

text \<open>A record that lies within the stream decodes to its three integers.\<close>

lemma control_record_full:
  assumes full: "\<forall>b. length b = 8 \<longrightarrow> decode_int64 L b = Inr (v b)"
    and k: "k < length bc div 24"
  shows "control_record L bc (24 * k) =
     Inr (v (pyslice bc (24 * k) (24 * k + 8)),
          v (pyslice bc (24 * k + 8) (24 * k + 16)),
          v (pyslice bc (24 * k + 16) (24 * k + 24)))"
proof -
  from full full_slices(1) [OF k]
  have a: "decode_int64 L (pyslice bc (24 * k) (24 * k + 8))
             = Inr (v (pyslice bc (24 * k) (24 * k + 8)))" by blast
  from full full_slices(2) [OF k]
  have b: "decode_int64 L (pyslice bc (24 * k + 8) (24 * k + 16))
             = Inr (v (pyslice bc (24 * k + 8) (24 * k + 16)))" by blast
  from full full_slices(3) [OF k]
  have c: "decode_int64 L (pyslice bc (24 * k + 16) (24 * k + 24))
             = Inr (v (pyslice bc (24 * k + 16) (24 * k + 24)))" by blast
  show ?thesis unfolding control_record_def a b c by simp
qed

text \<open>
  The record cut short by the end of the stream: whichever of its slices is the first
  not to have 8 bytes, decoding it raises, and the third never has 8.
\<close>

lemma control_record_short:
  assumes short: "\<forall>b. length b \<noteq> 8 \<longrightarrow> decode_int64 L b = Inl e"
    and full: "\<forall>b. length b = 8 \<longrightarrow> decode_int64 L b = Inr (v b)"
    and mis: "length bc mod 24 \<noteq> 0"
  shows "control_record L bc (24 * (length bc div 24)) = Inl e"
proof -
  let ?i = "24 * (length bc div 24)"
  have dich: "decode_int64 L b = Inl e \<or> decode_int64 L b = Inr (v b)" for b
    using short full by (cases "length b = 8") auto
  from short short_last_slice [OF mis]
  have third: "decode_int64 L (pyslice bc (?i + 16) (?i + 24)) = Inl e" by blast
  from dich [of "pyslice bc ?i (?i + 8)"] dich [of "pyslice bc (?i + 8) (?i + 16)"] third
  show ?thesis by (auto simp: control_record_def)
qed

lemma control_records_map:
  "\<forall>i \<in> set is. control_record L bc i = Inr (f i) \<Longrightarrow>
   control_records L bc is = Inr (map f is)"
  by (induction "is") simp_all

lemma control_records_stop:
  "\<forall>i \<in> set is. control_record L bc i = Inr (f i) \<Longrightarrow> control_record L bc j = Inl e \<Longrightarrow>
   control_records L bc (is @ [j]) = Inl e"
  by (induction "is") simp_all

lemma range24_aligned: "n mod 24 = 0 \<Longrightarrow> range24 n = map (\<lambda>k. 24 * k) [0 ..< n div 24]"
proof -
  assume "n mod 24 = 0"
  then obtain q where q: "n = 24 * q" by (auto elim: dvdE simp: mod_eq_0_iff_dvd)
  have "(24 * q + 23) div 24 = q" by simp
  with q have "(n + 23) div 24 = n div 24" by simp
  then show ?thesis by (simp add: range24_def)
qed

lemma range24_misaligned:
  "n mod 24 \<noteq> 0 \<Longrightarrow> range24 n = map (\<lambda>k. 24 * k) [0 ..< n div 24] @ [24 * (n div 24)]"
proof -
  assume nz: "n mod 24 \<noteq> 0"
  define q r where "q = n div 24" and "r = n mod 24"
  have e: "n = 24 * q + r" by (simp add: q_def r_def)
  from nz have r0: "0 < r" by (simp add: r_def)
  have r1: "r < 24" by (simp add: r_def)
  from e r0 have lo: "24 * Suc q \<le> n + 23" by simp
  from e r1 have hi: "n + 23 < 24 * Suc (Suc q)" by simp
  from lo hi have "(n + 23) div 24 = Suc q" by (rule div_nat_eqI)
  then show ?thesis by (simp add: range24_def q_def)
qed

lemma decode_control_aligned:
  assumes full: "\<forall>b. length b = 8 \<longrightarrow> decode_int64 L b = Inr (v b)"
    and al: "length bc mod 24 = 0"
  shows "decode_control L (Some bc) = Inr (records_of v bc)"
proof -
  let ?f = "\<lambda>i. (v (pyslice bc i (i + 8)), v (pyslice bc (i + 8) (i + 16)),
                 v (pyslice bc (i + 16) (i + 24)))"
  have "\<forall>i \<in> set (map (\<lambda>k. 24 * k) [0 ..< length bc div 24]). control_record L bc i = Inr (?f i)"
    using control_record_full [OF full] by auto
  from control_records_map [OF this]
  have "control_records L bc (map (\<lambda>k. 24 * k) [0 ..< length bc div 24])
          = Inr (map ?f (map (\<lambda>k. 24 * k) [0 ..< length bc div 24]))" .
  also have "map ?f (map (\<lambda>k. 24 * k) [0 ..< length bc div 24]) = records_of v bc"
    by (simp add: records_of_def comp_def)
  finally show ?thesis by (simp add: decode_control_def range24_aligned [OF al])
qed

lemma decode_control_misaligned:
  assumes short: "\<forall>b. length b \<noteq> 8 \<longrightarrow> decode_int64 L b = Inl e"
    and full: "\<forall>b. length b = 8 \<longrightarrow> decode_int64 L b = Inr (v b)"
    and mis: "length bc mod 24 \<noteq> 0"
  shows "decode_control L (Some bc) = Inl e"
proof -
  let ?f = "\<lambda>i. (v (pyslice bc i (i + 8)), v (pyslice bc (i + 8) (i + 16)),
                 v (pyslice bc (i + 16) (i + 24)))"
  have "\<forall>i \<in> set (map (\<lambda>k. 24 * k) [0 ..< length bc div 24]). control_record L bc i = Inr (?f i)"
    using control_record_full [OF full] by auto
  from control_records_stop [OF this control_record_short [OF short full mis]]
  show ?thesis by (simp add: decode_control_def range24_misaligned [OF mis])
qed

lemma bsdf2_read_patch_control:
  "read_bcontrol L fi = Inr (h, bcontrol, p) \<Longrightarrow>
   (decode_control L bcontrol = Inl e \<longrightarrow> bsdf2_read_patch L fi = Inl e) \<and>
   (bsdf2_read_patch L fi = Inr (ln, tc, bd, be) \<longrightarrow> decode_control L bcontrol = Inr tc)"
  by (auto simp: bsdf2_read_patch_def split: sum.splits prod.splits)

lemma bsdf2_read_patch_returns:
  assumes "read_bcontrol L fi = Inr (h, bcontrol, p)"
    and "decode_control L bcontrol = Inr tc"
    and "bsdf2_decompress L (alg_diff h) (fst (bio_read fi p (len_diff h))) = Inr bd"
    and "bsdf2_decompress L (alg_extra h)
           (fst (bio_read fi (snd (bio_read fi p (len_diff h))) (- 1))) = Inr be"
  shows "bsdf2_read_patch L fi = Inr (len_dst h, tc, bd, be)"
  using assms by (simp add: bsdf2_read_patch_def case_prod_beta)

text \<open>
  Claim C5. \<open>bsdf2_read_patch\<close> has no test of its own for the length of the decompressed
  control stream: it decodes the slices \<open>[i, i+8)\<close>, \<open>[i+8, i+16)\<close> and \<open>[i+16, i+24)\<close> for
  every \<open>i\<close> in \<open>range(0, len, 24)\<close>. The library function \<open>decode_int64\<close> is taken to
  reject every input that is not 8 bytes long with one error \<open>e\<close>, and to give every
  8-byte input \<open>b\<close> the integer \<open>v b\<close>. Then, for every patch whose control stream was read
  and decompressed: when its length is not a multiple of 24 the decoder fails with \<open>e\<close>,
  raised on the slice that the end of the stream cuts short; when its length is a
  multiple of 24 the control tuples are the 24-byte records of the stream in stream
  order, each read as three integers, and the decoder returns them, with the new length
  and the two other streams, once those two decompress.
\<close>

theorem control_stream_records:
  assumes short: "\<forall>b. length b \<noteq> 8 \<longrightarrow> decode_int64 L b = Inl e"
    and full: "\<forall>b. length b = 8 \<longrightarrow> decode_int64 L b = Inr (v b)"
    and bc: "read_bcontrol L fi = Inr (h, Some bc, p)"
  shows "(length bc mod 24 \<noteq> 0 \<longrightarrow> bsdf2_read_patch L fi = Inl e) \<and>
         (length bc mod 24 = 0 \<longrightarrow>
            decode_control L (Some bc) = Inr (records_of v bc) \<and>
            (bsdf2_decompress L (alg_diff h) (fst (bio_read fi p (len_diff h))) = Inr bd \<and>
             bsdf2_decompress L (alg_extra h)
               (fst (bio_read fi (snd (bio_read fi p (len_diff h))) (- 1))) = Inr be \<longrightarrow>
               bsdf2_read_patch L fi = Inr (len_dst h, records_of v bc, bd, be)) \<and>
            (\<forall>ln tc d x. bsdf2_read_patch L fi = Inr (ln, tc, d, x) \<longrightarrow> tc = records_of v bc))"
proof (intro conjI impI allI)
  assume mis: "length bc mod 24 \<noteq> 0"
  from decode_control_misaligned [OF short full mis] bsdf2_read_patch_control [OF bc]
  show "bsdf2_read_patch L fi = Inl e" by blast
next
  assume al: "length bc mod 24 = 0"
  show "decode_control L (Some bc) = Inr (records_of v bc)"
    by (rule decode_control_aligned [OF full al])
next
  assume al: "length bc mod 24 = 0"
    and streams: "bsdf2_decompress L (alg_diff h) (fst (bio_read fi p (len_diff h))) = Inr bd \<and>
             bsdf2_decompress L (alg_extra h)
               (fst (bio_read fi (snd (bio_read fi p (len_diff h))) (- 1))) = Inr be"
  from streams have d: "bsdf2_decompress L (alg_diff h) (fst (bio_read fi p (len_diff h))) = Inr bd"
    and x: "bsdf2_decompress L (alg_extra h)
               (fst (bio_read fi (snd (bio_read fi p (len_diff h))) (- 1))) = Inr be"
    by simp_all
  show "bsdf2_read_patch L fi = Inr (len_dst h, records_of v bc, bd, be)"
    by (rule bsdf2_read_patch_returns [OF bc decode_control_aligned [OF full al] d x])
next
  fix ln tc d x
  assume al: "length bc mod 24 = 0" and ok: "bsdf2_read_patch L fi = Inr (ln, tc, d, x)"
  from bsdf2_read_patch_control [OF bc] ok have "decode_control L (Some bc) = Inr tc" by blast
  with decode_control_aligned [OF full al] show "tc = records_of v bc" by simp
qed


lemma example_decode_int64_short:
  "\<forall>b. length b \<noteq> 8 \<longrightarrow> decode_int64 example_libs b = Inl (ValueError ''8 bytes expected'')"
  by (simp add: example_libs_def example_decode_int64_def)

lemma example_decode_int64_full:
  "\<forall>b. length b = 8 \<longrightarrow> decode_int64 example_libs b = Inr (example_int64 b)"
  by (simp add: example_libs_def example_decode_int64_def)

lemma example_misaligned_bcontrol:
  "read_bcontrol example_libs example_misaligned =
     Inr (\<lparr>alg_control = 0, alg_diff = 0, alg_extra = 0,
            len_control = 25, len_diff = 0, len_dst = 0, fi_pos = 32\<rparr>,
          Some (replicate 25 0), 57)"
  by code_simp

lemma example_aligned_bcontrol:
  "read_bcontrol example_libs (example_bsdf2 0 0 0) =
     Inr (\<lparr>alg_control = 0, alg_diff = 0, alg_extra = 0,
            len_control = 24, len_diff = 3, len_dst = 3, fi_pos = 32\<rparr>,
          Some [0, 0, 0, 0, 0, 0, 0, 3, 0, 0, 0, 0, 0, 0, 0, 0, 0, 0, 0, 0, 0, 0, 0, 2], 56)"
  by code_simp

theorem control_stream_records_witness:
  "length (replicate 25 (0::byte)) mod 24 \<noteq> 0 \<and>
   bsdf2_read_patch example_libs example_misaligned = Inl (ValueError ''8 bytes expected'') \<and>
   length ([0, 0, 0, 0, 0, 0, 0, 3, 0, 0, 0, 0, 0, 0, 0, 0, 0, 0, 0, 0, 0, 0, 0, 2] :: bytes) mod 24 = 0 \<and>
   bsdf2_read_patch example_libs (example_bsdf2 0 0 0) = Inr (3, [(3, 0, 2)], Some [1, 1, 1], Some [])"
proof -
  let ?bc = "[0, 0, 0, 0, 0, 0, 0, 3, 0, 0, 0, 0, 0, 0, 0, 0, 0, 0, 0, 0, 0, 0, 0, 2] :: bytes"
  let ?h = "\<lparr>alg_control = 0, alg_diff = 0, alg_extra = 0,
            len_control = 24, len_diff = 3, len_dst = 3, fi_pos = 32\<rparr>"
  have m: "length (replicate 25 (0::byte)) mod 24 \<noteq> 0" by simp
  from control_stream_records
    [OF example_decode_int64_short example_decode_int64_full example_misaligned_bcontrol] m
  have mis: "bsdf2_read_patch example_libs example_misaligned = Inl (ValueError ''8 bytes expected'')"
    by blast
  have a: "length ?bc mod 24 = 0" by simp
  have d: "bsdf2_decompress example_libs (alg_diff ?h)
             (fst (bio_read (example_bsdf2 0 0 0) 56 (len_diff ?h))) = Inr (Some [1, 1, 1])"
    by (simp add: bsdf2_decompress_def bio_read_def example_bsdf2_def)
  have x: "bsdf2_decompress example_libs (alg_extra ?h)
             (fst (bio_read (example_bsdf2 0 0 0)
                (snd (bio_read (example_bsdf2 0 0 0) 56 (len_diff ?h))) (- 1))) = Inr (Some [])"
    by (simp add: bsdf2_decompress_def bio_read_def example_bsdf2_def)
  have r: "records_of example_int64 ?bc = [(3, 0, 2)]"
    by (simp add: records_of_def pyslice_def example_int64_def)
  from control_stream_records
    [OF example_decode_int64_short example_decode_int64_full example_aligned_bcontrol,
     where bd = "Some [1, 1, 1]" and be = "Some []"] a d x
  have "bsdf2_read_patch example_libs (example_bsdf2 0 0 0)
          = Inr (len_dst ?h, records_of example_int64 ?bc, Some [1, 1, 1], Some [])"
    by blast
  then have al: "bsdf2_read_patch example_libs (example_bsdf2 0 0 0)
          = Inr (3, [(3, 0, 2)], Some [1, 1, 1], Some [])"
    unfolding r by simp
  from m mis a al show ?thesis by blast
qed

section \<open>The add step of the patch applier\<close>

lemma pos_at_0 [simp]: "new_pos_at cs 0 = 0" "diff_pos_at cs 0 = 0" "old_pos_at cs 0 = 0"
  by (simp_all add: new_pos_at_def diff_pos_at_def old_pos_at_def)

lemma pos_at_Suc [simp]:
  "new_pos_at ((x, y, z) # cs) (Suc k) = nat x + nat y + new_pos_at cs k"
  "diff_pos_at ((x, y, z) # cs) (Suc k) = nat x + diff_pos_at cs k"
  "old_pos_at ((x, y, z) # cs) (Suc k) = x + z + old_pos_at cs k"
  by (simp_all add: new_pos_at_def diff_pos_at_def old_pos_at_def)

lemma length_pyslice: "j \<le> length b \<Longrightarrow> length (pyslice b i j) = j - i"
  by (simp add: pyslice_def)

lemma nth_pyslice: "i + k < j \<Longrightarrow> j \<le> length b \<Longrightarrow> pyslice b i j ! k = b ! (i + k)"
  by (simp add: pyslice_def)

lemma length_add_step:
  "length a = m \<Longrightarrow> length b = m \<Longrightarrow> length (add_step a b) = m"
  by (simp add: add_step_def)

lemma nth_add_step:
  "k < length a \<Longrightarrow> k < length b \<Longrightarrow> add_step a b ! k = a ! k + b ! k"
  by (simp add: add_step_def)

text \<open>What a successful step of the walk has checked, and how the walk goes on.\<close>

lemma patch_steps_step:
  assumes ok: "patch_steps old n ((x, y, z) # cs) diff extra dp ep op out = Inr res"
    and more: "int (length out) < n"
  shows "0 \<le> x \<and> dp + nat x \<le> length diff \<and> 0 \<le> y \<and> ep + nat y \<le> length extra \<and>
         (0 < x \<longrightarrow> 0 \<le> op \<and> nat op + nat x \<le> length old) \<and>
         patch_steps old n cs diff extra (dp + nat x) (ep + nat y) (op + x + z)
           (out @ add_step (pyslice diff dp (dp + nat x)) (pyslice old (nat op) (nat op + nat x))
                @ pyslice extra ep (ep + nat y)) = Inr res"
proof -
  from more have a: "\<not> n \<le> int (length out)" by simp
  from ok a have b: "\<not> (x < 0 \<or> length diff < dp + nat x)"
    by (auto split: if_splits)
  from ok a b have c: "\<not> (0 < x \<and> (op < 0 \<or> int (length old) < op + x))"
    by (auto split: if_splits)
  from ok a b c have d: "\<not> (y < 0 \<or> length extra < ep + nat y)"
    by (auto split: if_splits)
  from ok a b c d have r: "patch_steps old n cs diff extra (dp + nat x) (ep + nat y) (op + x + z)
           (out @ add_step (pyslice diff dp (dp + nat x)) (pyslice old (nat op) (nat op + nat x))
                @ pyslice extra ep (ep + nat y)) = Inr res"
    by (simp split: if_splits)
  from c have "0 < x \<longrightarrow> 0 \<le> op \<and> nat op + nat x \<le> length old" by auto
  with b d r show ?thesis by auto
qed

lemma length_step_output:
  assumes "0 \<le> x" "dp + nat x \<le> length diff" "0 \<le> y" "ep + nat y \<le> length extra"
    "0 < x \<longrightarrow> 0 \<le> op \<and> nat op + nat x \<le> length old"
  shows "length (add_step (pyslice diff dp (dp + nat x)) (pyslice old (nat op) (nat op + nat x)))
           = nat x"
    and "length (pyslice extra ep (ep + nat y)) = nat y"
proof -
  have d: "length (pyslice diff dp (dp + nat x)) = nat x"
    using assms(2) by (simp add: length_pyslice)
  have o: "length (pyslice old (nat op) (nat op + nat x)) = nat x"
  proof (cases "0 < x")
    case True
    with assms(5) show ?thesis by (simp add: length_pyslice)
  next
    case False
    then show ?thesis by (simp add: pyslice_def)
  qed
  from d o show "length (add_step (pyslice diff dp (dp + nat x))
      (pyslice old (nat op) (nat op + nat x))) = nat x"
    by (rule length_add_step)
  show "length (pyslice extra ep (ep + nat y)) = nat y"
    using assms(4) by (simp add: length_pyslice)
qed

lemma patch_steps_prefix:
  "patch_steps old n cs diff extra dp ep op out = Inr res \<Longrightarrow> \<exists>suf. res = out @ suf"
proof (induction cs arbitrary: dp ep op out)
  case Nil
  then show ?case by (simp add: finish_patch_def split: if_splits)
next
  case (Cons c cs)
  obtain x y z where c: "c = (x, y, z)" by (cases c)
  show ?case
  proof (cases "int (length out) < n")
    case False
    with Cons.prems c have "res = out" by (simp add: finish_patch_def split: if_splits)
    then show ?thesis by simp
  next
    case True
    from patch_steps_step [OF Cons.prems [unfolded c] True]
    have "patch_steps old n cs diff extra (dp + nat x) (ep + nat y) (op + x + z)
           (out @ add_step (pyslice diff dp (dp + nat x)) (pyslice old (nat op) (nat op + nat x))
                @ pyslice extra ep (ep + nat y)) = Inr res" by blast
    from Cons.IH [OF this] show ?thesis by auto
  qed
qed

lemma patch_steps_add:
  "patch_steps old n cs diff extra dp ep op out = Inr res \<Longrightarrow>
   k < length cs \<Longrightarrow> cs ! k = (x, y, z) \<Longrightarrow> i < nat x \<Longrightarrow>
   int (length out + new_pos_at cs k + i) < n \<Longrightarrow>
   res ! (length out + new_pos_at cs k + i)
     = diff ! (dp + diff_pos_at cs k + i) + old ! nat (op + old_pos_at cs k + int i)"
proof (induction cs arbitrary: dp ep op out k)
  case Nil
  then show ?case by simp
next
  case (Cons c cs)
  obtain x0 y0 z0 where c: "c = (x0, y0, z0)" by (cases c)
  let ?A = "add_step (pyslice diff dp (dp + nat x0)) (pyslice old (nat op) (nat op + nat x0))"
  let ?E = "pyslice extra ep (ep + nat y0)"
  from Cons.prems(5) have more: "int (length out) < n" by linarith
  from patch_steps_step [OF Cons.prems(1) [unfolded c] more]
  have x0: "0 \<le> x0" and dlen: "dp + nat x0 \<le> length diff"
    and y0: "0 \<le> y0" and elen: "ep + nat y0 \<le> length extra"
    and olen: "0 < x0 \<longrightarrow> 0 \<le> op \<and> nat op + nat x0 \<le> length old"
    and rec: "patch_steps old n cs diff extra (dp + nat x0) (ep + nat y0) (op + x0 + z0)
                (out @ ?A @ ?E) = Inr res"
    by blast+
  from length_step_output [OF x0 dlen y0 elen olen]
  have lA: "length ?A = nat x0" and lE: "length ?E = nat y0" by simp_all
  show ?case
  proof (cases k)
    case 0
    with Cons.prems(3) c have same: "x = x0" "y = y0" "z = z0" by simp_all
    from Cons.prems(4) same have i: "i < nat x0" by simp
    then have pos: "0 < x0" by simp
    with olen have op0: "0 \<le> op" and oend: "nat op + nat x0 \<le> length old" by simp_all
    from patch_steps_prefix [OF rec] obtain suf where res: "res = out @ ?A @ ?E @ suf" by auto
    have "res ! (length out + i) = (?A @ ?E @ suf) ! i"
      unfolding res by (rule nth_append_length_plus)
    also have "\<dots> = ?A ! i" using i lA by (simp add: nth_append)
    also have "\<dots> = pyslice diff dp (dp + nat x0) ! i + pyslice old (nat op) (nat op + nat x0) ! i"
      using i dlen oend by (simp add: nth_add_step length_pyslice)
    also have "pyslice diff dp (dp + nat x0) ! i = diff ! (dp + i)"
      using i dlen by (simp add: nth_pyslice)
    also have "pyslice old (nat op) (nat op + nat x0) ! i = old ! (nat op + i)"
      using i oend by (simp add: nth_pyslice)
    also have "nat op + i = nat (op + int i)" using op0 by simp
    finally show ?thesis using 0 by simp
  next
    case (Suc k')
    with Cons.prems(2) have k': "k' < length cs" by simp
    from Suc Cons.prems(3) have nth: "cs ! k' = (x, y, z)" by simp
    have len: "length (out @ ?A @ ?E) = length out + nat x0 + nat y0"
      using lA lE by simp
    from Cons.prems(5) Suc c
    have bound: "int (length (out @ ?A @ ?E) + new_pos_at cs k' + i) < n"
      unfolding len by (simp add: add.assoc)
    from Cons.IH [OF rec k' nth Cons.prems(4) bound]
    have "res ! (length (out @ ?A @ ?E) + new_pos_at cs k' + i)
        = diff ! (dp + nat x0 + diff_pos_at cs k' + i)
          + old ! nat (op + x0 + z0 + old_pos_at cs k' + int i)" .
    then show ?thesis unfolding len using Suc c by (simp add: add.assoc)
  qed
qed

lemma patch_steps_length:
  "patch_steps old n cs diff extra dp ep op out = Inr res \<Longrightarrow> int (length res) = n"
proof (induction cs arbitrary: dp ep op out)
  case Nil
  then show ?case by (simp add: finish_patch_def split: if_splits)
next
  case (Cons c cs)
  obtain x y z where c: "c = (x, y, z)" by (cases c)
  show ?case
  proof (cases "int (length out) < n")
    case False
    with Cons.prems c show ?thesis by (simp add: finish_patch_def split: if_splits)
  next
    case True
    from patch_steps_step [OF Cons.prems [unfolded c] True]
    have "patch_steps old n cs diff extra (dp + nat x) (ep + nat y) (op + x + z)
           (out @ add_step (pyslice diff dp (dp + nat x)) (pyslice old (nat op) (nat op + nat x))
                @ pyslice extra ep (ep + nat y)) = Inr res" by blast
    then show ?thesis by (rule Cons.IH)
  qed
qed

text \<open>
  Claim C1. For every application of the patch applier that returns an output, each
  output byte of an add step is the sum modulo 256 of its diff byte and of the old byte
  under the old cursor: for the \<open>k\<close>-th control tuple and every \<open>i\<close> below its
  \<open>copy_len\<close>, as far as the new length reaches, the output byte at \<open>new_pos + i\<close> is the
  diff byte at \<open>diff_pos + i\<close> plus the old byte at \<open>old_pos + i\<close>, the three cursors being
  the sums of the lengths walked before. The control stream \<open>[(3, 0, 2)]\<close> with the diff
  stream \<open>[1, 1, 1]\<close>, no extra stream, the old data \<open>[10, 20, 30, 40, 50]\<close> and the new length 3
  gives exactly \<open>[11, 21, 31]\<close>.
\<close>

theorem add_step_adds_modulo_256:
  "(apply_patch old_data n cs diff_stream extra_stream = Inr out \<and>
    k < length cs \<and> cs ! k = (copy_len, extra_len, seek_len) \<and> i < nat copy_len \<and>
    int (new_pos_at cs k + i) < n \<longrightarrow>
      new_pos_at cs k + i < length out \<and>
      unat (out ! (new_pos_at cs k + i))
        = (unat (diff_stream ! (diff_pos_at cs k + i))
           + unat (old_data ! nat (old_pos_at cs k + int i))) mod 256) \<and>
   apply_patch [10, 20, 30, 40, 50] 3 [(3, 0, 2)] [1, 1, 1] [] = Inr [11, 21, 31]"
proof (intro conjI impI)
  assume a: "apply_patch old_data n cs diff_stream extra_stream = Inr out \<and>
    k < length cs \<and> cs ! k = (copy_len, extra_len, seek_len) \<and> i < nat copy_len \<and>
    int (new_pos_at cs k + i) < n"
  then have run: "patch_steps old_data n cs diff_stream extra_stream 0 0 0 [] = Inr out"
    by (simp add: apply_patch_def)
  from patch_steps_length [OF run] a show "new_pos_at cs k + i < length out" by linarith
  from a have b: "int (length ([]::bytes) + new_pos_at cs k + i) < n" by simp
  from a have k: "k < length cs" and nth: "cs ! k = (copy_len, extra_len, seek_len)"
    and i: "i < nat copy_len" by simp_all
  from patch_steps_add [OF run k nth i b]
  have "out ! (new_pos_at cs k + i)
      = diff_stream ! (diff_pos_at cs k + i) + old_data ! nat (old_pos_at cs k + int i)"
    by simp
  then show "unat (out ! (new_pos_at cs k + i))
        = (unat (diff_stream ! (diff_pos_at cs k + i))
           + unat (old_data ! nat (old_pos_at cs k + int i))) mod 256"
    by (simp add: unat_word_ariths)
next
  show "apply_patch [10, 20, 30, 40, 50] 3 [(3, 0, 2)] [1, 1, 1] [] = Inr [11, 21, 31]"
    by (simp add: apply_patch_def add_step_def pyslice_def finish_patch_def)
qed

theorem add_step_adds_modulo_256_witness:
  "apply_patch [7, 100] 2 [(0, 1, 1), (1, 0, 0)] [200] [9] = Inr [9, 44] \<and>
   unat (([9, 44] :: bytes) ! 1) = (unat (([200] :: bytes) ! 0) + unat (([7, 100] :: bytes) ! 1)) mod 256"
proof -
  have r: "apply_patch [7, 100] 2 [(0, 1, 1), (1, 0, 0)] [200] [9] = Inr [9, 44]"
    by (simp add: apply_patch_def add_step_def pyslice_def finish_patch_def)
  have n: "new_pos_at [(0, 1, 1), (1, 0, 0)] 1 = 1" "diff_pos_at [(0, 1, 1), (1, 0, 0)] 1 = 0"
    "old_pos_at [(0, 1, 1), (1, 0, 0)] 1 = 1"
    by (simp_all add: new_pos_at_def diff_pos_at_def old_pos_at_def)
  from add_step_adds_modulo_256
    [of "[7, 100]" 2 "[(0, 1, 1), (1, 0, 0)]" "[200]" "[9]" "[9, 44]" 1 1 0 0 0] r n
  have "unat (([9, 44] :: bytes) ! 1)
      = (unat (([200] :: bytes) ! 0) + unat (([7, 100] :: bytes) ! 1)) mod 256"
    by simp
  with r show ?thesis by blast
qed

end
